theory Spec2Isabelle
  imports Main "HOL-Library.Word" "HOL-Library.Sublist"
begin

unbundle bit_operations_syntax

section \<open>Machine types\<close>

text \<open>
  Fixed-width integers of the C++ sources. \<open>int8_t\<close> and \<open>uint8_t\<close> share the
  carrier \<open>8 word\<close>; signedness is in the operations (\<open>sint\<close>, \<open><s\<close>) as it is in
  the machine. A \<open>float\<close> is carried as its 32-bit pattern: the only float operation the
  verified code performs is the reinterpretation of that pattern.
\<close>

type_synonym u8 = "8 word"
type_synonym i8 = "8 word"
type_synonym u16 = "16 word"
type_synonym u32 = "32 word"
type_synonym u64 = "64 word"

text \<open>Reading or writing outside an allocation is undefined behaviour in C++; the
  model makes it a value.\<close>

datatype error = OutOfBounds

section \<open>INT4 weight blocks (weight\_loader.hpp)\<close>

text \<open>
  \<open>data\<close> is the heap array behind the \<open>uint8_t*\<close>; a null pointer is the empty
  list (no byte of either may be read).
\<close>

record INT4Weights =
  data :: "u8 list"
  num_weights :: nat
  data_size :: nat
  scale :: u32
  zero_point :: i8

definition getWeight :: "INT4Weights \<Rightarrow> nat \<Rightarrow> error + i8" where
  "getWeight b idx =
     (if idx \<ge> num_weights b then Inr 0
      else
        let byte_idx = idx div 2;
            is_upper = (idx mod 2 = 1)
        in if byte_idx \<ge> length (data b) then Inl OutOfBounds
           else
             let byte = data b ! byte_idx;
                 val = (if is_upper then drop_bit 4 byte AND 0x0F else byte AND 0x0F);
                 val' = (if val AND 0x08 \<noteq> 0 then val OR 0xF0 else val)
             in Inr val')"

definition setWeight :: "INT4Weights \<Rightarrow> nat \<Rightarrow> i8 \<Rightarrow> error + INT4Weights" where
  "setWeight b idx v =
     (if idx \<ge> num_weights b then Inr b
      else
        let v1 = (if 7 <s v then 7 else v);
            v2 = (if v1 <s - 8 then - 8 else v1);
            byte_idx = idx div 2;
            is_upper = (idx mod 2 = 1);
            masked_value = v2 AND 0x0F
        in if byte_idx \<ge> length (data b) then Inl OutOfBounds
           else if is_upper
             then Inr (b\<lparr>data := (data b)[byte_idx :=
                         (data b ! byte_idx AND 0x0F) OR push_bit 4 masked_value]\<rparr>)
             else Inr (b\<lparr>data := (data b)[byte_idx :=
                         (data b ! byte_idx AND 0xF0) OR masked_value]\<rparr>))"

text \<open>\<open>allocate\<close>: \<open>new uint8_t[data_size]\<close> followed by \<open>memset\<close> to zero. The
  \<open>new\<close> expression throws rather than returning null, so the result is always
  \<open>true\<close>. The code forms \<open>num_weights + 1\<close> in \<open>size_t\<close>, where it wraps to 0 at
  \<open>SIZE_MAX\<close>; the model forms it in \<open>nat\<close> and so covers every count below
  \<open>SIZE_MAX\<close>.\<close>

definition allocate :: "INT4Weights \<Rightarrow> nat \<Rightarrow> bool \<times> INT4Weights" where
  "allocate b n =
     (let ds = (n + 1) div 2
      in (True, b\<lparr>num_weights := n, data_size := ds, data := replicate ds 0\<rparr>))"

definition INT4Weights_new :: INT4Weights where
  "INT4Weights_new =
     \<lparr>data = [], num_weights = 0, data_size = 0, scale = 0x3F800000, zero_point = 0\<rparr>"

text \<open>The layout invariant \<open>allocate\<close> establishes (below \<open>SIZE_MAX\<close> weights) and
  \<open>setWeight\<close> keeps.\<close>

definition block_ok :: "INT4Weights \<Rightarrow> bool" where
  "block_ok b \<longleftrightarrow> data_size b = (num_weights b + 1) div 2 \<and> length (data b) = data_size b"

text \<open>The data model's reading of a stored nibble: nibble \<open>2k\<close> is
  \<open>bytes[k] & 0x0F\<close>, nibble \<open>2k+1\<close> is \<open>(bytes[k] >> 4) & 0x0F\<close>.\<close>

definition stored_nibble :: "INT4Weights \<Rightarrow> nat \<Rightarrow> u8" where
  "stored_nibble b i =
     (if i mod 2 = 0 then data b ! (i div 2) AND 0x0F
      else drop_bit 4 (data b ! (i div 2)) AND 0x0F)"

definition clamp_int4 :: "int \<Rightarrow> int" where
  "clamp_int4 x = max (- 8) (min 7 x)"

section \<open>FP32 to FP16 (weight\_loader.hpp)\<close>

text \<open>
  \<open>exp - 127 + 15\<close> is evaluated in \<open>uint32_t\<close> (it wraps below 112) and then
  narrowed to \<open>int16_t\<close>; the comparisons are signed. The final expression is computed
  in 32 bits and narrowed to \<open>uint16_t\<close> on return.
\<close>

definition float_to_fp16 :: "u32 \<Rightarrow> u16" where
  "float_to_fp16 bits =
     (let sign = drop_bit 31 bits AND 0x1;
          exp = drop_bit 23 bits AND 0xFF;
          mantissa = bits AND 0x7FFFFF;
          new_exp = (ucast (exp - 127 + 15) :: 16 word)
      in if new_exp \<le>s 0 then 0
         else if 31 \<le>s new_exp then ucast (push_bit 15 sign OR 0x7C00)
         else ucast (push_bit 15 sign OR push_bit 10 (scast new_exp) OR drop_bit 13 mantissa))"

section \<open>Model weights and the weight loader (weight\_loader.hpp)\<close>

text \<open>
  A \<open>std::vector<float>\<close> is the list of its elements' bit patterns. \<open>size_t\<close>
  quantities are sizes of objects held in memory: every sum the loader forms is below
  the number of bytes those objects occupy (two bytes are counted for a four-byte float,
  one for an allocated byte), so it cannot wrap, and \<open>nat\<close> arithmetic is exact.
\<close>

record LayerWeights =
  name :: string
  q_weights :: INT4Weights
  k_weights :: INT4Weights
  v_weights :: INT4Weights
  o_weights :: INT4Weights
  ffn_up :: INT4Weights
  ffn_down :: INT4Weights
  ln1_weight :: "u32 list"
  ln1_bias :: "u32 list"
  ln2_weight :: "u32 list"
  ln2_bias :: "u32 list"
  layer_idx :: nat
  hidden_size :: nat
  intermediate_size :: nat

record ModelWeights =
  token_embeddings :: "u32 list"
  position_embeddings :: "u32 list"
  layers :: "LayerWeights list"
  lm_head :: "u32 list"
  num_layers :: u32
  hidden_size :: u32
  num_heads :: u32
  vocab_size :: u32
  max_seq_len :: u32

text \<open>\<open>ddr_weights_virt\<close> is the host address of the region (0 is the null
  pointer); the bytes behind it are passed to \<open>copyToDDR\<close> explicitly.\<close>

record WeightLoader =
  weights :: ModelWeights
  model_path :: string
  loaded :: bool
  ddr_weights_phys :: u64
  ddr_weights_virt :: u64
  ddr_weights_size :: nat

definition LayerWeights_new :: LayerWeights where
  "LayerWeights_new =
     \<lparr>name = [], q_weights = INT4Weights_new, k_weights = INT4Weights_new,
      v_weights = INT4Weights_new, o_weights = INT4Weights_new, ffn_up = INT4Weights_new,
      ffn_down = INT4Weights_new, ln1_weight = [], ln1_bias = [], ln2_weight = [],
      ln2_bias = [], layer_idx = 0, hidden_size = 0, intermediate_size = 0\<rparr>"

definition ModelWeights_new :: ModelWeights where
  "ModelWeights_new =
     \<lparr>token_embeddings = [], position_embeddings = [], layers = [], lm_head = [],
      num_layers = 0, hidden_size = 0, num_heads = 0, vocab_size = 0, max_seq_len = 0\<rparr>"

definition WeightLoader_new :: WeightLoader where
  "WeightLoader_new =
     \<lparr>weights = ModelWeights_new, model_path = [], loaded = False, ddr_weights_phys = 0,
      ddr_weights_virt = 0, ddr_weights_size = 0\<rparr>"

subsection \<open>calculateDDRSize\<close>

text \<open>The range-for over \<open>weights.layers\<close>, with \<open>total\<close> as accumulator.\<close>

fun calc_layers :: "LayerWeights list \<Rightarrow> nat \<Rightarrow> nat" where
  "calc_layers [] total' = total'"
| "calc_layers (layer # rest) total' =
     calc_layers rest
       (total' + data_size (q_weights layer) + data_size (k_weights layer)
          + data_size (v_weights layer) + data_size (o_weights layer)
          + data_size (ffn_up layer) + data_size (ffn_down layer)
          + length (ln1_weight layer) * 2 + length (ln1_bias layer) * 2
          + length (ln2_weight layer) * 2 + length (ln2_bias layer) * 2)"

definition calculateDDRSize :: "WeightLoader \<Rightarrow> nat" where
  "calculateDDRSize wl =
     (let total' = 0;
          total' = total' + length (token_embeddings (weights wl)) * 2;
          total' = total' + length (position_embeddings (weights wl)) * 2;
          total' = calc_layers (layers (weights wl)) total';
          total' = total' + length (lm_head (weights wl)) * 2
      in total')"

subsection \<open>allocateDDR\<close>

definition allocateDDR :: "WeightLoader \<Rightarrow> u64 \<Rightarrow> u64 \<Rightarrow> nat \<Rightarrow> bool \<times> WeightLoader" where
  "allocateDDR wl phys_addr virt_addr size' =
     (let wl' = wl\<lparr>ddr_weights_phys := phys_addr, ddr_weights_virt := virt_addr,
                    ddr_weights_size := size'\<rparr>;
          required = calculateDDRSize wl'
      in if required > size' then (False, wl') else (True, wl'))"

text \<open>The staging policy's required size, term by term: embeddings as f16, the six
  packed INT4 blocks of every layer raw, the four layer-norm vectors of every layer as
  f16, and the lm\_head as f16.\<close>

definition layer_serialized_size :: "LayerWeights \<Rightarrow> nat" where
  "layer_serialized_size l =
     data_size (q_weights l) + data_size (k_weights l) + data_size (v_weights l)
       + data_size (o_weights l) + data_size (ffn_up l) + data_size (ffn_down l)
       + 2 * length (ln1_weight l) + 2 * length (ln1_bias l)
       + 2 * length (ln2_weight l) + 2 * length (ln2_bias l)"

definition required_ddr :: "ModelWeights \<Rightarrow> nat" where
  "required_ddr m =
     2 * length (token_embeddings m) + 2 * length (position_embeddings m)
       + sum_list (map layer_serialized_size (layers m))
       + 2 * length (lm_head m)"

subsection \<open>getLayerAddress\<close>

text \<open>The loop \<open>for (i = 0; i < layer_idx; i++)\<close> runs over the first
  \<open>layer_idx\<close> layers; the guard before it makes every \<open>weights.layers[i]\<close> in
  range. The final sum is formed in \<open>uint64_t\<close>.\<close>

fun addr_layers :: "LayerWeights list \<Rightarrow> nat \<Rightarrow> nat" where
  "addr_layers [] offset = offset"
| "addr_layers (layer # rest) offset =
     addr_layers rest
       (offset + data_size (q_weights layer) + data_size (k_weights layer)
          + data_size (v_weights layer) + data_size (o_weights layer)
          + data_size (ffn_up layer) + data_size (ffn_down layer)
          + length (ln1_weight layer) * 2 + length (ln1_bias layer) * 2
          + length (ln2_weight layer) * 2 + length (ln2_bias layer) * 2)"

definition getLayerAddress :: "WeightLoader \<Rightarrow> nat \<Rightarrow> u64" where
  "getLayerAddress wl idx =
     (if idx \<ge> length (layers (weights wl)) then 0
      else
        let offset = 0;
            offset = offset + length (token_embeddings (weights wl)) * 2;
            offset = offset + length (position_embeddings (weights wl)) * 2;
            offset = addr_layers (take idx (layers (weights wl))) offset
        in ddr_weights_phys wl + of_nat offset)"

subsection \<open>copyToDDR\<close>

text \<open>
  The region behind \<open>ddr_weights_virt\<close> is a byte list; \<open>memcpy\<close> into it at an
  offset replaces a slice, and is out of bounds when the slice does not fit. The state
  of the copy is the pair of the running \<open>offset\<close> and the region. A \<open>uint16_t\<close> is
  stored low byte first (the hosts of this firmware are little-endian).
\<close>

definition ebind :: "error + 'a \<Rightarrow> ('a \<Rightarrow> error + 'b) \<Rightarrow> error + 'b" where
  "ebind m f = (case m of Inl e \<Rightarrow> Inl e | Inr x \<Rightarrow> f x)"

definition memcpy_to :: "u8 list \<Rightarrow> nat \<Rightarrow> u8 list \<Rightarrow> error + u8 list" where
  "memcpy_to region offset bytes =
     (if offset + length bytes \<le> length region
      then Inr (take offset region @ bytes @ drop (offset + length bytes) region)
      else Inl OutOfBounds)"

definition le_bytes16 :: "u16 \<Rightarrow> u8 list" where
  "le_bytes16 w = [ucast w, ucast (drop_bit 8 w)]"

fun copy_fp16 :: "u32 list \<Rightarrow> nat \<times> u8 list \<Rightarrow> error + (nat \<times> u8 list)" where
  "copy_fp16 [] st = Inr st"
| "copy_fp16 (val # rest) (offset, region) =
     ebind (memcpy_to region offset (le_bytes16 (float_to_fp16 val)))
       (\<lambda>region'. copy_fp16 rest (offset + 2, region'))"

definition copy_int4 :: "INT4Weights \<Rightarrow> nat \<times> u8 list \<Rightarrow> error + (nat \<times> u8 list)" where
  "copy_int4 w st =
     (case st of (offset, region) \<Rightarrow>
        if data_size w > length (data w) then Inl OutOfBounds
        else ebind (memcpy_to region offset (take (data_size w) (data w)))
               (\<lambda>region'. Inr (offset + data_size w, region')))"

text \<open>The body of the loop over the layers.\<close>

definition copy_layer :: "LayerWeights \<Rightarrow> nat \<times> u8 list \<Rightarrow> error + (nat \<times> u8 list)" where
  "copy_layer layer st =
     ebind (copy_int4 (q_weights layer) st) (\<lambda>st.
     ebind (copy_int4 (k_weights layer) st) (\<lambda>st.
     ebind (copy_int4 (v_weights layer) st) (\<lambda>st.
     ebind (copy_int4 (o_weights layer) st) (\<lambda>st.
     ebind (copy_int4 (ffn_up layer) st) (\<lambda>st.
     ebind (copy_int4 (ffn_down layer) st) (\<lambda>st.
     copy_fp16 (ln1_weight layer) st))))))"

fun copy_layers :: "LayerWeights list \<Rightarrow> nat \<times> u8 list \<Rightarrow> error + (nat \<times> u8 list)" where
  "copy_layers [] st = Inr st"
| "copy_layers (layer # rest) st = ebind (copy_layer layer st) (copy_layers rest)"

text \<open>The result is the returned flag, the final \<open>offset\<close> (the total the routine
  reports) and the region.\<close>

definition copyToDDR :: "WeightLoader \<Rightarrow> u8 list \<Rightarrow> error + (bool \<times> nat \<times> u8 list)" where
  "copyToDDR wl region =
     (if \<not> loaded wl then Inr (False, 0, region)
      else if ddr_weights_virt wl = 0 then Inr (False, 0, region)
      else
        ebind (copy_fp16 (token_embeddings (weights wl)) (0, region)) (\<lambda>st.
        ebind (copy_layers (layers (weights wl)) st) (\<lambda>st.
        Inr (True, fst st, snd st))))"

subsection \<open>loadFromBinary\<close>

text \<open>
  The loader reads the eight header words, checks the magic number, and sizes the
  model from the header alone: tensor data is skipped, the per-block scale, zero point
  and length are read into locals and dropped, and the checksum trailer is only printed
  (a trailer record whose name is longer than 255 bytes overruns the code's buffer, which
  is undefined and outside the model).
  The file is therefore represented by its header (\<open>None\<close>: it cannot be opened).
  Sizes are products formed in \<open>uint32_t\<close>. \<open>resize\<close> keeps the elements already
  there and value-initialises the new ones.
\<close>

record Header =
  magic :: u32
  version :: u32
  num_layers :: u32
  hidden_size :: u32
  num_heads :: u32
  vocab_size :: u32
  max_seq_len :: u32
  intermediate_size :: u32

definition resize :: "nat \<Rightarrow> 'a \<Rightarrow> 'a list \<Rightarrow> 'a list" where
  "resize n d xs = take n xs @ replicate (n - length xs) d"

definition load_layer :: "Header \<Rightarrow> nat \<Rightarrow> LayerWeights \<Rightarrow> LayerWeights" where
  "load_layer header i layer =
     (let qkv_size = unat (Header.hidden_size header * Header.hidden_size header);
          ffn_up_size = unat (Header.hidden_size header * Header.intermediate_size header);
          ffn_down_size = unat (Header.intermediate_size header * Header.hidden_size header)
      in layer\<lparr>layer_idx := i,
               LayerWeights.hidden_size := unat (Header.hidden_size header),
               LayerWeights.intermediate_size := unat (Header.intermediate_size header),
               q_weights := snd (allocate (q_weights layer) qkv_size),
               k_weights := snd (allocate (k_weights layer) qkv_size),
               v_weights := snd (allocate (v_weights layer) qkv_size),
               o_weights := snd (allocate (o_weights layer) qkv_size),
               ffn_up := snd (allocate (ffn_up layer) ffn_up_size),
               ffn_down := snd (allocate (ffn_down layer) ffn_down_size),
               ln1_weight := resize (unat (Header.hidden_size header)) 0 (ln1_weight layer),
               ln1_bias := resize (unat (Header.hidden_size header)) 0 (ln1_bias layer),
               ln2_weight := resize (unat (Header.hidden_size header)) 0 (ln2_weight layer),
               ln2_bias := resize (unat (Header.hidden_size header)) 0 (ln2_bias layer)\<rparr>)"

definition loadFromBinary :: "WeightLoader \<Rightarrow> Header option \<Rightarrow> bool \<times> WeightLoader" where
  "loadFromBinary wl file =
     (case file of
        None \<Rightarrow> (False, wl)
      | Some header \<Rightarrow>
          if magic header \<noteq> 0x57544E54 then (False, wl)
          else
            let w = weights wl;
                w = w\<lparr>ModelWeights.num_layers := Header.num_layers header,
                       ModelWeights.hidden_size := Header.hidden_size header,
                       ModelWeights.num_heads := Header.num_heads header,
                       ModelWeights.vocab_size := Header.vocab_size header,
                       ModelWeights.max_seq_len := Header.max_seq_len header\<rparr>;
                embed_size = unat (Header.vocab_size header * Header.hidden_size header);
                w = w\<lparr>token_embeddings := resize embed_size 0 (token_embeddings w)\<rparr>;
                pos_embed_size = unat (Header.max_seq_len header * Header.hidden_size header);
                w = w\<lparr>position_embeddings := resize pos_embed_size 0 (position_embeddings w)\<rparr>;
                ls = resize (unat (Header.num_layers header)) LayerWeights_new (layers w);
                w = w\<lparr>layers := map (\<lambda>(i, layer). load_layer header i layer)
                                      (zip [0..<length ls] ls)\<rparr>
            in (True, wl\<lparr>weights := w, loaded := True\<rparr>))"

subsection \<open>A small model file\<close>

text \<open>Two layers, hidden size 2, intermediate size 2, one vocabulary entry, one
  position.\<close>

definition header0 :: Header where
  "header0 = \<lparr>magic = 0x57544E54, version = 1, num_layers = 2, hidden_size = 2,
               num_heads = 1, vocab_size = 1, max_seq_len = 1, intermediate_size = 2\<rparr>"

definition loader0 :: WeightLoader where
  "loader0 = snd (allocateDDR (snd (loadFromBinary WeightLoader_new (Some header0)))
                    0x10000000 0x7F000000 64)"

section \<open>The bounded queue (queue.hpp)\<close>

text \<open>
  \<open>MAX_SIZE\<close> is a template parameter: the operations take it as their first
  argument. \<open>pop\<close> returns \<open>None\<close> where the source returns \<open>false\<close> and leaves
  \<open>item\<close> untouched, and the popped item with the new queue otherwise. The two threads'
  operations are taken as atomic steps in some order (the source has no
  synchronisation of its own).
\<close>

record 'a Queue =
  buffer :: "'a list"
  head :: nat
  tail :: nat
  count :: nat

definition Queue_new :: "nat \<Rightarrow> 'a \<Rightarrow> 'a Queue" where
  "Queue_new MAX_SIZE d = \<lparr>buffer = replicate MAX_SIZE d, head = 0, tail = 0, count = 0\<rparr>"

definition push :: "nat \<Rightarrow> 'a Queue \<Rightarrow> 'a \<Rightarrow> bool \<times> 'a Queue" where
  "push MAX_SIZE q item =
     (if count q \<ge> MAX_SIZE then (False, q)
      else (True, q\<lparr>buffer := (buffer q)[tail q := item],
                     tail := (tail q + 1) mod MAX_SIZE,
                     count := count q + 1\<rparr>))"

definition pop :: "nat \<Rightarrow> 'a Queue \<Rightarrow> ('a \<times> 'a Queue) option" where
  "pop MAX_SIZE q =
     (if count q = 0 then None
      else Some (buffer q ! head q,
                 q\<lparr>head := (head q + 1) mod MAX_SIZE, count := count q - 1\<rparr>))"

definition tryPop :: "nat \<Rightarrow> 'a Queue \<Rightarrow> ('a \<times> 'a Queue) option" where
  "tryPop MAX_SIZE q = pop MAX_SIZE q"

definition size_queue :: "'a Queue \<Rightarrow> nat" where
  "size_queue q = count q"

definition empty_queue :: "'a Queue \<Rightarrow> bool" where
  "empty_queue q \<longleftrightarrow> count q = 0"

definition full :: "nat \<Rightarrow> 'a Queue \<Rightarrow> bool" where
  "full MAX_SIZE q \<longleftrightarrow> count q \<ge> MAX_SIZE"

text \<open>A run of queue operations, recording the items pushed with success and the
  items popped, each in order.\<close>

datatype 'a queue_op = Push 'a | TryPop

fun exec_ops ::
  "nat \<Rightarrow> 'a queue_op list \<Rightarrow> 'a Queue \<times> 'a list \<times> 'a list \<Rightarrow> 'a Queue \<times> 'a list \<times> 'a list"
where
  "exec_ops N [] st = st"
| "exec_ops N (Push x # ops) (q, pushed, popped) =
     (if fst (push N q x) then exec_ops N ops (snd (push N q x), pushed @ [x], popped)
      else exec_ops N ops (snd (push N q x), pushed, popped))"
| "exec_ops N (TryPop # ops) (q, pushed, popped) =
     (case tryPop N q of
        None \<Rightarrow> exec_ops N ops (q, pushed, popped)
      | Some (x, q') \<Rightarrow> exec_ops N ops (q', pushed, popped @ [x]))"

text \<open>The items a ring holds, oldest first.\<close>

definition contents :: "nat \<Rightarrow> 'a Queue \<Rightarrow> 'a list" where
  "contents N q = map (\<lambda>k. buffer q ! ((head q + k) mod N)) [0..<count q]"

definition ring_ok :: "nat \<Rightarrow> 'a Queue \<Rightarrow> bool" where
  "ring_ok N q \<longleftrightarrow>
     length (buffer q) = N \<and> head q < N \<and> tail q = (head q + count q) mod N \<and> count q \<le> N"

section \<open>Configuration and status framing (config\_struct.hpp)\<close>

text \<open>
  \<open>pack\<close> and \<open>unpack\<close> are \<open>memcpy\<close>s of \<open>38 * sizeof(uint32_t) = 152\<close> bytes
  between the object and the word array, so the model goes through the object
  representation: the bytes of the fields in declaration order, each integer low byte
  first (the hosts of this firmware are little-endian). Three 64-bit fields, twelve
  32-bit fields and \<open>reserved[20]\<close> give offsets 0, 8, 16, 24, 28, ..., 68, 72 and a
  size of 152 with no padding. \<open>reserved\<close> is a list, of length 20 in every object.
\<close>

record ConfigIn =
  input_buffer_addr :: u64
  output_buffer_addr :: u64
  kv_cache_addr :: u64
  stride :: u32
  max_tokens :: u32
  batch_size :: u32
  sequence_length :: u32
  num_layers :: u32
  hidden_size :: u32
  num_heads :: u32
  vocab_size :: u32
  prompt_length :: u32
  task_id :: u32
  task_type :: u32
  flags :: u32
  reserved :: "u32 list"

text \<open>The constructor: \<open>memset(this, 0, sizeof(ConfigIn))\<close>.\<close>

definition ConfigIn_new :: ConfigIn where
  "ConfigIn_new =
     \<lparr>input_buffer_addr = 0, output_buffer_addr = 0, kv_cache_addr = 0, stride = 0,
      max_tokens = 0, batch_size = 0, sequence_length = 0, num_layers = 0, hidden_size = 0,
      num_heads = 0, vocab_size = 0, prompt_length = 0, task_id = 0, task_type = 0,
      flags = 0, reserved = replicate 20 0\<rparr>"

definition le_bytes32 :: "u32 \<Rightarrow> u8 list" where
  "le_bytes32 w = [ucast w, ucast (drop_bit 8 w), ucast (drop_bit 16 w), ucast (drop_bit 24 w)]"

definition le_bytes64 :: "u64 \<Rightarrow> u8 list" where
  "le_bytes64 w =
     [ucast w, ucast (drop_bit 8 w), ucast (drop_bit 16 w), ucast (drop_bit 24 w),
      ucast (drop_bit 32 w), ucast (drop_bit 40 w), ucast (drop_bit 48 w),
      ucast (drop_bit 56 w)]"

text \<open>The integer a run of bytes holds, low byte first.\<close>

definition le_word :: "u8 list \<Rightarrow> 'a::len word" where
  "le_word bs = foldr (\<lambda>b w. ucast b OR push_bit 8 w) bs 0"

text \<open>An array of \<open>uint32_t\<close> seen as bytes, and bytes seen as an array of
  \<open>uint32_t\<close>.\<close>

definition bytes_of_words :: "u32 list \<Rightarrow> u8 list" where
  "bytes_of_words ws = concat (map le_bytes32 ws)"

fun words_of_bytes :: "u8 list \<Rightarrow> u32 list" where
  "words_of_bytes (b0 # b1 # b2 # b3 # rest) = le_word [b0, b1, b2, b3] # words_of_bytes rest"
| "words_of_bytes _ = []"

definition object_bytes :: "ConfigIn \<Rightarrow> u8 list" where
  "object_bytes c =
     le_bytes64 (input_buffer_addr c) @ le_bytes64 (output_buffer_addr c)
       @ le_bytes64 (kv_cache_addr c)
       @ le_bytes32 (stride c) @ le_bytes32 (max_tokens c) @ le_bytes32 (batch_size c)
       @ le_bytes32 (sequence_length c) @ le_bytes32 (num_layers c)
       @ le_bytes32 (hidden_size c) @ le_bytes32 (num_heads c) @ le_bytes32 (vocab_size c)
       @ le_bytes32 (prompt_length c) @ le_bytes32 (task_id c) @ le_bytes32 (task_type c)
       @ le_bytes32 (flags c) @ bytes_of_words (reserved c)"

definition object_of_bytes :: "u8 list \<Rightarrow> ConfigIn" where
  "object_of_bytes bs =
     \<lparr>input_buffer_addr = le_word (take 8 bs),
      output_buffer_addr = le_word (take 8 (drop 8 bs)),
      kv_cache_addr = le_word (take 8 (drop 16 bs)),
      stride = le_word (take 4 (drop 24 bs)),
      max_tokens = le_word (take 4 (drop 28 bs)),
      batch_size = le_word (take 4 (drop 32 bs)),
      sequence_length = le_word (take 4 (drop 36 bs)),
      num_layers = le_word (take 4 (drop 40 bs)),
      hidden_size = le_word (take 4 (drop 44 bs)),
      num_heads = le_word (take 4 (drop 48 bs)),
      vocab_size = le_word (take 4 (drop 52 bs)),
      prompt_length = le_word (take 4 (drop 56 bs)),
      task_id = le_word (take 4 (drop 60 bs)),
      task_type = le_word (take 4 (drop 64 bs)),
      flags = le_word (take 4 (drop 68 bs)),
      reserved = words_of_bytes (take 80 (drop 72 bs))\<rparr>"

text \<open>\<open>pack\<close> returns the 38 words written to the array; \<open>unpack\<close> overwrites every
  byte of the object, so its result does not depend on the object's old value. Reading
  fewer than 38 words is out of bounds.\<close>

definition pack :: "ConfigIn \<Rightarrow> u32 list" where
  "pack c = words_of_bytes (take (38 * 4) (object_bytes c))"

definition unpack :: "u32 list \<Rightarrow> error + ConfigIn" where
  "unpack ws =
     (if length ws < 38 then Inl OutOfBounds
      else Inr (object_of_bytes (take (38 * 4) (bytes_of_words ws))))"

definition setAddress :: "u32 list \<Rightarrow> nat \<Rightarrow> u64 \<Rightarrow> u32 list" where
  "setAddress ws start_word addr =
     (ws[start_word := ucast (addr AND 0xFFFFFFFF)])[start_word + 1 := ucast (drop_bit 32 addr)]"

definition getAddress :: "u32 list \<Rightarrow> nat \<Rightarrow> u64" where
  "getAddress ws start_word =
     (let low = (ucast (ws ! start_word) :: u64);
          high = (ucast (ws ! (start_word + 1)) :: u64)
      in push_bit 32 high OR low)"

record StatusOut =
  current_token :: u32
  tokens_generated :: u32
  error_code :: u32
  flags :: u32

definition StatusOut_new :: StatusOut where
  "StatusOut_new = \<lparr>current_token = 0, tokens_generated = 0, error_code = 0, flags = 0\<rparr>"

definition isValid :: "StatusOut \<Rightarrow> bool" where
  "isValid s \<longleftrightarrow> StatusOut.flags s AND 0x01 \<noteq> 0"

definition isDone :: "StatusOut \<Rightarrow> bool" where
  "isDone s \<longleftrightarrow> StatusOut.flags s AND 0x02 \<noteq> 0"

definition hasError :: "StatusOut \<Rightarrow> bool" where
  "hasError s \<longleftrightarrow> StatusOut.flags s AND 0x04 \<noteq> 0"

text \<open>\<open>StatusOut::unpack\<close> assigns the four fields from \<open>words[0..3]\<close>.\<close>

definition status_unpack :: "u32 list \<Rightarrow> StatusOut" where
  "status_unpack ws =
     \<lparr>current_token = ws ! 0, tokens_generated = ws ! 1, error_code = ws ! 2, flags = ws ! 3\<rparr>"

section \<open>Register map (xaccelerator\_hw.h)\<close>

definition XACCELERATOR_BASEADDR :: u32 where "XACCELERATOR_BASEADDR = 0x43C00000"
definition XACCELERATOR_CTRL_ADDR_AP_CTRL :: u32 where "XACCELERATOR_CTRL_ADDR_AP_CTRL = 0x00"
definition XACCELERATOR_AP_CTRL_START :: u32 where "XACCELERATOR_AP_CTRL_START = 0x01"
definition XACCELERATOR_AP_CTRL_DONE :: u32 where "XACCELERATOR_AP_CTRL_DONE = 0x02"
definition XACCELERATOR_AP_CTRL_IDLE :: u32 where "XACCELERATOR_AP_CTRL_IDLE = 0x04"
definition XACCELERATOR_CONFIG_IN_BASE :: u32 where "XACCELERATOR_CONFIG_IN_BASE = 0x10"
definition XACCELERATOR_CONFIG_IN_WORDS :: nat where "XACCELERATOR_CONFIG_IN_WORDS = 38"
definition XACCELERATOR_STATUS_OUT_BASE :: u32 where "XACCELERATOR_STATUS_OUT_BASE = 0xAC"
definition XACCELERATOR_STATUS_OUT_WORDS :: nat where "XACCELERATOR_STATUS_OUT_WORDS = 4"
definition XACCELERATOR_STATUS_OUT_CTRL :: u32 where "XACCELERATOR_STATUS_OUT_CTRL = 0xBC"
definition XACCELERATOR_STATUS_OUT_AP_VLD :: u32 where "XACCELERATOR_STATUS_OUT_AP_VLD = 0x01"
definition XACCELERATOR_IRQ_CLEAR_IN :: u32 where "XACCELERATOR_IRQ_CLEAR_IN = 0xD4"

definition XACCELERATOR_CONFIG_IN_OFFSET :: "nat \<Rightarrow> u32" where
  "XACCELERATOR_CONFIG_IN_OFFSET n = XACCELERATOR_CONFIG_IN_BASE + of_nat n * 4"

definition XACCELERATOR_STATUS_OUT_OFFSET :: "nat \<Rightarrow> u32" where
  "XACCELERATOR_STATUS_OUT_OFFSET n = XACCELERATOR_STATUS_OUT_BASE + of_nat n * 4"

section \<open>The accelerator driver (accelerator.hpp)\<close>

text \<open>
  The object's members, and with them \<open>token_counter\<close>, the function-local
  \<open>static int\<close> of \<open>getNextToken\<close>, which lives as long as the program.
  \<open>config_words\<close> and \<open>status_words\<close> are arrays of 38 and 4 words.
\<close>

record Accelerator =
  base_addr :: u32
  config :: ConfigIn
  status :: StatusOut
  config_words :: "u32 list"
  status_words :: "u32 list"
  input_buffer :: "u32 list"
  output_buffer :: "u32 list"
  kv_cache :: "u32 list"
  token_counter :: int

definition Accelerator_new :: Accelerator where
  "Accelerator_new =
     \<lparr>base_addr = XACCELERATOR_BASEADDR, config = ConfigIn_new, status = StatusOut_new,
      config_words = replicate 38 0, status_words = replicate 4 0,
      input_buffer = replicate 4096 0, output_buffer = replicate 1024 0,
      kv_cache = replicate 65536 0, token_counter = 0\<rparr>"

text \<open>\<open>writeReg\<close> prints the write and sleeps: the object is unchanged.\<close>

definition writeReg :: "Accelerator \<Rightarrow> u32 \<Rightarrow> u32 \<Rightarrow> Accelerator" where
  "writeReg a offset v = a"

definition readReg :: "Accelerator \<Rightarrow> u32 \<Rightarrow> u32" where
  "readReg a offset =
     (if offset = XACCELERATOR_CTRL_ADDR_AP_CTRL
        then XACCELERATOR_AP_CTRL_IDLE OR XACCELERATOR_AP_CTRL_DONE
      else if offset \<ge> XACCELERATOR_STATUS_OUT_BASE \<and> offset < XACCELERATOR_STATUS_OUT_BASE + 16
        then (let word_idx = unat ((offset - XACCELERATOR_STATUS_OUT_BASE) div 4)
              in if word_idx < 4 then status_words a ! word_idx else 0)
      else if offset = XACCELERATOR_STATUS_OUT_CTRL then XACCELERATOR_STATUS_OUT_AP_VLD
      else 0)"

definition configure :: "Accelerator \<Rightarrow> u64 \<Rightarrow> u64 \<Rightarrow> u64 \<Rightarrow> u32 \<Rightarrow> u32 \<Rightarrow> Accelerator" where
  "configure a input_addr output_addr kv_addr stride' max_tokens' =
     (let a = a\<lparr>config := (config a)\<lparr>input_buffer_addr := input_addr,
                                        output_buffer_addr := output_addr,
                                        kv_cache_addr := kv_addr,
                                        stride := stride',
                                        max_tokens := max_tokens'\<rparr>\<rparr>;
          a = a\<lparr>config_words := pack (config a)\<rparr>
      in fold (\<lambda>i a. writeReg a (XACCELERATOR_CONFIG_IN_OFFSET i) (config_words a ! i))
           [0..<XACCELERATOR_CONFIG_IN_WORDS] a)"

definition setTaskConfig :: "Accelerator \<Rightarrow> int \<Rightarrow> u32 \<Rightarrow> Accelerator" where
  "setTaskConfig a tid prompt_len =
     (let a = a\<lparr>config := (config a)\<lparr>task_id := word_of_int tid,
                                        prompt_length := prompt_len,
                                        task_type := 0\<rparr>\<rparr>;
          a = a\<lparr>config_words := pack (config a)\<rparr>;
          a = writeReg a (XACCELERATOR_CONFIG_IN_OFFSET 14) (config_words a ! 14);
          a = writeReg a (XACCELERATOR_CONFIG_IN_OFFSET 15) (config_words a ! 15);
          a = writeReg a (XACCELERATOR_CONFIG_IN_OFFSET 16) (config_words a ! 16)
      in a)"

definition startInference :: "Accelerator \<Rightarrow> int \<Rightarrow> u32 list \<Rightarrow> Accelerator" where
  "startInference a tid tokens =
     (let a = setTaskConfig a tid (of_nat (length tokens));
          a = a\<lparr>input_buffer :=
                  fold (\<lambda>i buf. buf[i := tokens ! i])
                    [0..<min (length tokens) (length (input_buffer a))] (input_buffer a)\<rparr>;
          a = writeReg a XACCELERATOR_CTRL_ADDR_AP_CTRL XACCELERATOR_AP_CTRL_START;
          a = a\<lparr>status := (status a)\<lparr>tokens_generated := 0, flags := 0x01\<rparr>\<rparr>
      in a)"

text \<open>\<open>readStatus\<close>: when the valid bit reads as set, each status word is read
  back through \<open>readReg\<close> into \<open>status_words\<close> and the four words are unpacked into
  \<open>status\<close>. (\<open>pack_to_words\<close> has an empty body and is left out.)\<close>

definition readStatus :: "Accelerator \<Rightarrow> Accelerator" where
  "readStatus a =
     (let ctrl = readReg a XACCELERATOR_STATUS_OUT_CTRL
      in if ctrl AND XACCELERATOR_STATUS_OUT_AP_VLD = 0 then a
         else
           let a = fold (\<lambda>i a. a\<lparr>status_words :=
                           (status_words a)[i := readReg a (XACCELERATOR_STATUS_OUT_OFFSET i)]\<rparr>)
                     [0..<XACCELERATOR_STATUS_OUT_WORDS] a
           in a\<lparr>status := status_unpack (status_words a)\<rparr>)"

definition EOS_TOKEN :: u32 where "EOS_TOKEN = 0xFFFFFFFF"

text \<open>\<open>getNextToken\<close> returns \<open>Some token\<close> where the source returns \<open>true\<close> with
  \<open>token\<close> assigned, and \<open>None\<close> where it returns \<open>false\<close>.\<close>

definition getNextToken :: "Accelerator \<Rightarrow> u32 option \<times> Accelerator" where
  "getNextToken a =
     (let a = readStatus a
      in if isValid (status a) \<and> \<not> isDone (status a) then
           let old = token_counter a;
               a = a\<lparr>token_counter := old + 1\<rparr>
           in if old > 10 then
                let token = EOS_TOKEN;
                    a = a\<lparr>status := (status a)\<lparr>flags := StatusOut.flags (status a) OR 0x02\<rparr>,
                          token_counter := 0\<rparr>;
                    a = a\<lparr>status := (status a)\<lparr>current_token := token\<rparr>\<rparr>
                in (Some token, a)
              else
                let token = (word_of_int (100 + token_counter a) :: u32);
                    a = a\<lparr>status := (status a)\<lparr>tokens_generated :=
                                                  tokens_generated (status a) + 1\<rparr>\<rparr>;
                    a = a\<lparr>status := (status a)\<lparr>current_token := token\<rparr>\<rparr>
                in (Some token, a)
         else (None, a))"

definition reset :: "Accelerator \<Rightarrow> Accelerator" where
  "reset a =
     (let a = writeReg a XACCELERATOR_IRQ_CLEAR_IN 0xFFFFFFFF;
          a = writeReg a XACCELERATOR_CTRL_ADDR_AP_CTRL 0x00
      in a\<lparr>kv_cache := map (\<lambda>_. 0) (kv_cache a)\<rparr>)"

definition getStatus :: "Accelerator \<Rightarrow> StatusOut \<times> Accelerator" where
  "getStatus a = (let a = readStatus a in (status a, a))"

definition accel_isDone :: "Accelerator \<Rightarrow> bool" where
  "accel_isDone a \<longleftrightarrow>
     readReg a XACCELERATOR_CTRL_ADDR_AP_CTRL AND XACCELERATOR_AP_CTRL_DONE \<noteq> 0"

definition accel_isIdle :: "Accelerator \<Rightarrow> bool" where
  "accel_isIdle a \<longleftrightarrow>
     readReg a XACCELERATOR_CTRL_ADDR_AP_CTRL AND XACCELERATOR_AP_CTRL_IDLE \<noteq> 0"

text \<open>
  A use of the driver is a sequence of calls of its public operations on an object
  made by the constructor (\<open>status_words\<close> and the other members are private: nothing
  else writes them). \<open>isDone\<close> and \<open>isIdle\<close> only read a register.
\<close>

datatype driver_op =
    Configure u64 u64 u64 u32 u32
  | SetTaskConfig int u32
  | StartInference int "u32 list"
  | ReadStatus
  | GetNextToken
  | IsDone
  | IsIdle
  | Reset
  | GetStatus

fun driver_step :: "driver_op \<Rightarrow> Accelerator \<Rightarrow> Accelerator" where
  "driver_step (Configure i o' k s m) a = configure a i o' k s m"
| "driver_step (SetTaskConfig t p) a = setTaskConfig a t p"
| "driver_step (StartInference t ts) a = startInference a t ts"
| "driver_step ReadStatus a = readStatus a"
| "driver_step GetNextToken a = snd (getNextToken a)"
| "driver_step IsDone a = a"
| "driver_step IsIdle a = a"
| "driver_step Reset a = reset a"
| "driver_step GetStatus a = snd (getStatus a)"

text \<open>The successive calls of \<open>getNextToken\<close> in a use of the driver: for each call,
  the token it yielded (if any) and the value of \<open>status.tokens_generated\<close> when it
  returned.\<close>

fun driver_trace :: "driver_op list \<Rightarrow> Accelerator \<Rightarrow> (u32 option \<times> u32) list" where
  "driver_trace [] a = []"
| "driver_trace (GetNextToken # ops) a =
     (fst (getNextToken a), tokens_generated (status (snd (getNextToken a))))
       # driver_trace ops (snd (getNextToken a))"
| "driver_trace (op # ops) a = driver_trace ops (driver_step op a)"

text \<open>The rule of the driver contract: a call may yield only if the counter is above
  its value at the last call that yielded (\<open>prev\<close>, \<open>None\<close> before the first yield).\<close>

fun no_double_count :: "u32 option \<Rightarrow> (u32 option \<times> u32) list \<Rightarrow> bool" where
  "no_double_count prev [] = True"
| "no_double_count prev ((None, g) # rest) = no_double_count prev rest"
| "no_double_count None ((Some t, g) # rest) = no_double_count (Some g) rest"
| "no_double_count (Some l) ((Some t, g) # rest) = (l < g \<and> no_double_count (Some g) rest)"

section \<open>Engine types (types.hpp)\<close>

datatype TaskType = GENERATE

record Task =
  id_task :: int
  type_task :: TaskType
  prompt :: string

definition Task_new :: Task where
  "Task_new = \<lparr>id_task = 0, type_task = GENERATE, prompt = []\<rparr>"

datatype CommandType = STOP_CURRENT | RESET | SHUTDOWN

record Command =
  type_cmd :: CommandType

definition Command_new :: Command where
  "Command_new = \<lparr>type_cmd = STOP_CURRENT\<rparr>"

datatype EngineStatus = IDLE | GENERATING | SHUTTING_DOWN

record EngineState =
  status :: EngineStatus
  currentTaskId :: int
  cancelCurrent :: bool
  resetRequested :: bool

definition EngineState_new :: EngineState where
  "EngineState_new =
     \<lparr>status = IDLE, currentTaskId = - 1, cancelCurrent = False, resetRequested = False\<rparr>"

section \<open>The inference engine (inference\_engine.cpp)\<close>

text \<open>
  The engine thread's world: its locals \<open>state\<close> and \<open>accel\<close>, the two global queues,
  and the texts handed to \<open>sendOutputToUI\<close>, in order (the output sink). The diagnostic
  \<open>printf\<close> lines of the driver and the \<open>std::cout\<close> lines of \<open>main\<close> and of the thread's
  start and end are not part of it.
\<close>

record World =
  state :: EngineState
  accel :: Accelerator
  taskQueue :: "Task Queue"
  commandQueue :: "Command Queue"
  ui_output :: "string list"

definition TASK_QUEUE_SIZE :: nat where "TASK_QUEUE_SIZE = 100"
definition COMMAND_QUEUE_SIZE :: nat where "COMMAND_QUEUE_SIZE = 10"
definition MAX_TOKENS :: int where "MAX_TOKENS = 50"

definition nl :: char where "nl = CHR 0x0A"

text \<open>\<open>(uint32_t)c\<close> for a \<open>char\<close>: zero-extended where \<open>char\<close> is unsigned (the ARM
  hosts of the firmware), sign-extended where it is signed.\<close>

definition char_is_signed :: bool where "char_is_signed = False"

definition tokenize :: "string \<Rightarrow> u32 list" where
  "tokenize text =
     map (\<lambda>c. if char_is_signed then scast (word_of_nat (of_char c) :: 8 word)
               else ucast (word_of_nat (of_char c) :: 8 word)) text"

text \<open>\<open>std::to_string\<close> of an unsigned value: its decimal digits.\<close>

function to_string :: "nat \<Rightarrow> string" where
  "to_string n =
     (if n < 10 then [char_of (48 + n)]
      else to_string (n div 10) @ [char_of (48 + n mod 10)])"
  by pat_completeness auto
termination
  by (relation "measure (\<lambda>n. n)") simp_all

declare to_string.simps [simp del]

definition detokenize :: "u32 \<Rightarrow> string" where
  "detokenize token =
     (if token < 128 then [char_of (unat token)]
      else ''[T'' @ to_string (unat token) @ '']'')"

definition sendOutputToUI :: "World \<Rightarrow> string \<Rightarrow> World" where
  "sendOutputToUI w text = w\<lparr>ui_output := ui_output w @ [text]\<rparr>"

definition clearKvCache :: "World \<Rightarrow> World" where
  "clearKvCache w = w\<lparr>accel := reset (accel w)\<rparr>"

text \<open>The texts the engine sends.\<close>

definition msg_generating :: string where "msg_generating = nl # ''[Generating] ''"
definition msg_eos :: string where "msg_eos = nl # ''[EOS]'' @ [nl]"
definition msg_aborted :: string where "msg_aborted = nl # ''[Aborted]'' @ [nl]"
definition msg_shutdown :: string where
  "msg_shutdown = nl # ''[Aborted: shutdown requested]'' @ [nl]"
definition msg_cleared :: string where "msg_cleared = ''[Memory cleared]'' @ [nl]"
definition msg_cleared_idle :: string where "msg_cleared_idle = nl # ''[Memory cleared]'' @ [nl]"
definition msg_max_tokens :: string where
  "msg_max_tokens = nl # ''[Max tokens reached]'' @ [nl]"

definition handleTopLevelCommand :: "Command \<Rightarrow> World \<Rightarrow> World" where
  "handleTopLevelCommand cmd w =
     (case type_cmd cmd of
        SHUTDOWN \<Rightarrow> w\<lparr>state := (state w)\<lparr>status := SHUTTING_DOWN\<rparr>\<rparr>
      | RESET \<Rightarrow> sendOutputToUI (clearKvCache w) msg_cleared_idle
      | STOP_CURRENT \<Rightarrow> w)"

text \<open>\<open>runGeneration\<close> up to its loop.\<close>

definition runGeneration_begin :: "Task \<Rightarrow> World \<Rightarrow> World" where
  "runGeneration_begin task w =
     (let w = w\<lparr>state := (state w)\<lparr>cancelCurrent := False, resetRequested := False\<rparr>\<rparr>;
          promptTokens = tokenize (prompt task);
          w = sendOutputToUI w msg_generating;
          w = w\<lparr>accel := startInference (accel w) (id_task task) promptTokens\<rparr>
      in w)"

text \<open>One pass through the body of \<open>while (token_count < MAX_TOKENS)\<close>. The result
  says whether the function returned, and gives \<open>token_count\<close> and the world.\<close>

definition loop_body :: "World \<Rightarrow> int \<Rightarrow> bool \<times> int \<times> World" where
  "loop_body w token_count =
     (case (case tryPop COMMAND_QUEUE_SIZE (commandQueue w) of
              Some (cmd, q) \<Rightarrow>
                (let w = w\<lparr>commandQueue := q\<rparr>
                 in case type_cmd cmd of
                      SHUTDOWN \<Rightarrow>
                        (True, sendOutputToUI
                                 (w\<lparr>state := (state w)\<lparr>cancelCurrent := True,
                                                         status := SHUTTING_DOWN\<rparr>\<rparr>)
                                 msg_shutdown)
                    | RESET \<Rightarrow>
                        (False, w\<lparr>state := (state w)\<lparr>cancelCurrent := True,
                                                       resetRequested := True\<rparr>\<rparr>)
                    | STOP_CURRENT \<Rightarrow>
                        (False, w\<lparr>state := (state w)\<lparr>cancelCurrent := True\<rparr>\<rparr>))
            | None \<Rightarrow> (False, w)) of
        (True, w) \<Rightarrow> (True, token_count, w)
      | (False, w) \<Rightarrow>
          if cancelCurrent (state w) then
            (let w = sendOutputToUI w msg_aborted;
                 w = (if resetRequested (state w)
                      then (let w = clearKvCache w;
                                w = sendOutputToUI w msg_cleared
                            in w\<lparr>state := (state w)\<lparr>resetRequested := False\<rparr>\<rparr>)
                      else w)
             in (True, token_count, w))
          else
            (case getNextToken (accel w) of
               (Some nextToken, a) \<Rightarrow>
                 (let w = w\<lparr>accel := a\<rparr>
                  in if nextToken = EOS_TOKEN
                     then (True, token_count, sendOutputToUI w msg_eos)
                     else (False, token_count + 1, sendOutputToUI w (detokenize nextToken)))
             | (None, a) \<Rightarrow> (False, token_count, w\<lparr>accel := a\<rparr>)))"

text \<open>
  The shell thread pushes commands while the loop runs. A schedule lists, for each pass
  of the loop, the commands pushed since the pass before; the loop is followed for as
  many passes as the schedule has entries, and \<open>None\<close> says it has not returned by
  then.
\<close>

definition shell_pushes :: "Command list \<Rightarrow> World \<Rightarrow> World" where
  "shell_pushes cmds w =
     fold (\<lambda>c w. w\<lparr>commandQueue := snd (push COMMAND_QUEUE_SIZE (commandQueue w) c)\<rparr>) cmds w"

fun gen_loop :: "Command list list \<Rightarrow> int \<Rightarrow> World \<Rightarrow> World option" where
  "gen_loop [] token_count w =
     (if token_count < MAX_TOKENS then None else Some (sendOutputToUI w msg_max_tokens))"
| "gen_loop (arrivals # sched) token_count w =
     (if token_count < MAX_TOKENS then
        (case loop_body (shell_pushes arrivals w) token_count of
           (True, tc, w') \<Rightarrow> Some w'
         | (False, tc, w') \<Rightarrow> gen_loop sched tc w')
      else Some (sendOutputToUI w msg_max_tokens))"

definition runGeneration :: "Command list list \<Rightarrow> Task \<Rightarrow> World \<Rightarrow> World option" where
  "runGeneration sched task w = gen_loop sched 0 (runGeneration_begin task w)"

text \<open>The status markers of the console surface, verbatim, and the test whether a
  text sent to the sink carries one of the three terminal markers.\<close>

definition EOS_MARKER :: string where "EOS_MARKER = ''[EOS]'' @ [nl]"
definition ABORTED_MARKER :: string where "ABORTED_MARKER = ''[Aborted]'' @ [nl]"
definition MAX_TOKENS_MARKER :: string where "MAX_TOKENS_MARKER = ''[Max tokens reached]'' @ [nl]"

definition is_terminal_marker :: "string \<Rightarrow> bool" where
  "is_terminal_marker text \<longleftrightarrow>
     suffix EOS_MARKER text \<or> suffix ABORTED_MARKER text \<or> suffix MAX_TOKENS_MARKER text"

definition terminal_count :: "string list \<Rightarrow> nat" where
  "terminal_count texts = length (filter is_terminal_marker texts)"

definition is_end_message :: "string \<Rightarrow> bool" where
  "is_end_message text \<longleftrightarrow> is_terminal_marker text \<or> text = msg_shutdown"

subsection \<open>The engine thread and the shell, step by step\<close>

text \<open>
  The control points of \<open>inferenceEngineThread\<close>: the head of its outer loop, the
  head of the loop inside \<open>runGeneration\<close> (with that call's \<open>task\<close> and
  \<open>token_count\<close>), and the end of the thread. \<open>nextTaskId\<close> is \<open>main\<close>'s counter (an
  \<open>int\<close>; its overflow after \<open>2^31 - 1\<close> tasks is undefined in C++ and is outside the
  model); \<open>shell_running\<close> is false once \<open>main\<close> has left its input loop.
  \<open>state\<close> is a local of the thread and no other thread reads it, so the thread is
  followed from control point to control point; the shell's lines fall between these
  steps in any order.
\<close>

datatype Pc = TopLevel | InGeneration Task int | Exited

record System =
  world :: World
  pc :: Pc
  nextTaskId :: int
  shell_running :: bool

definition pushTask :: "World \<Rightarrow> Task \<Rightarrow> bool \<times> World" where
  "pushTask w task =
     (if full TASK_QUEUE_SIZE (taskQueue w) then (False, w)
      else (fst (push TASK_QUEUE_SIZE (taskQueue w) task),
            w\<lparr>taskQueue := snd (push TASK_QUEUE_SIZE (taskQueue w) task)\<rparr>))"

text \<open>One line read by \<open>main\<close>'s input loop.\<close>

definition shell_line :: "string \<Rightarrow> System \<Rightarrow> System" where
  "shell_line userInput s =
     (if \<not> shell_running s then s
      else if userInput = [] then s
      else if userInput = ''/quit'' then
        s\<lparr>world := shell_pushes [\<lparr>type_cmd = SHUTDOWN\<rparr>] (world s), shell_running := False\<rparr>
      else if userInput = ''/stop'' then
        s\<lparr>world := shell_pushes [\<lparr>type_cmd = STOP_CURRENT\<rparr>] (world s)\<rparr>
      else if userInput = ''/reset'' then
        s\<lparr>world := shell_pushes [\<lparr>type_cmd = RESET\<rparr>] (world s)\<rparr>
      else
        (let task = \<lparr>id_task = nextTaskId s, type_task = GENERATE, prompt = userInput\<rparr>
         in s\<lparr>nextTaskId := nextTaskId s + 1, world := snd (pushTask (world s) task)\<rparr>))"

text \<open>What the thread does when \<open>runGeneration\<close> has returned.\<close>

definition after_generation :: "System \<Rightarrow> System" where
  "after_generation s =
     (let w = world s;
          w = (if status (state w) = GENERATING
               then w\<lparr>state := (state w)\<lparr>status := IDLE, currentTaskId := - 1\<rparr>\<rparr>
               else w)
      in s\<lparr>world := w, pc := TopLevel\<rparr>)"

text \<open>One step of the engine thread, from one control point to the next.\<close>

definition engine_step :: "System \<Rightarrow> System" where
  "engine_step s =
     (case pc s of
        Exited \<Rightarrow> s
      | TopLevel \<Rightarrow>
          (let w = world s in
           if status (state w) = SHUTTING_DOWN then
             s\<lparr>world := clearKvCache w, pc := Exited\<rparr>
           else if status (state w) = IDLE then
             (case tryPop COMMAND_QUEUE_SIZE (commandQueue w) of
                Some (cmd, q) \<Rightarrow>
                  s\<lparr>world := handleTopLevelCommand cmd (w\<lparr>commandQueue := q\<rparr>)\<rparr>
              | None \<Rightarrow>
                  (case tryPop TASK_QUEUE_SIZE (taskQueue w) of
                     Some (task, q) \<Rightarrow>
                       (let w = w\<lparr>taskQueue := q\<rparr>;
                            w = w\<lparr>state := (state w)\<lparr>currentTaskId := id_task task,
                                                          status := GENERATING\<rparr>\<rparr>
                        in s\<lparr>world := runGeneration_begin task w, pc := InGeneration task 0\<rparr>)
                   | None \<Rightarrow> s))
           else s)
      | InGeneration task token_count \<Rightarrow>
          if token_count < MAX_TOKENS then
            (case loop_body (world s) token_count of
               (True, tc, w) \<Rightarrow> after_generation (s\<lparr>world := w\<rparr>)
             | (False, tc, w) \<Rightarrow> s\<lparr>world := w, pc := InGeneration task tc\<rparr>)
          else after_generation (s\<lparr>world := sendOutputToUI (world s) msg_max_tokens\<rparr>))"

datatype event = ShellLine string | EngineStep

fun sys_step :: "event \<Rightarrow> System \<Rightarrow> System" where
  "sys_step (ShellLine userInput) s = shell_line userInput s"
| "sys_step EngineStep s = engine_step s"

text \<open>The state when the thread reaches its loop: \<open>state\<close> and \<open>accel\<close> constructed,
  \<open>accel.configure\<close> called, the global queues empty.\<close>

definition System_init :: System where
  "System_init =
     \<lparr>world = \<lparr>state = EngineState_new,
                accel = configure Accelerator_new 0x10000000 0x20000000 0x30000000 128 2048,
                taskQueue = Queue_new TASK_QUEUE_SIZE Task_new,
                commandQueue = Queue_new COMMAND_QUEUE_SIZE Command_new,
                ui_output = []\<rparr>,
      pc = TopLevel, nextTaskId = 1, shell_running = True\<rparr>"

definition run :: "event list \<Rightarrow> System" where
  "run evs = fold sys_step evs System_init"

subsection \<open>A first task\<close>

text \<open>The first task \<open>main\<close> creates for the line \<open>hi\<close>, and the world in which the
  thread calls \<open>runGeneration\<close> for it.\<close>

definition task1 :: Task where
  "task1 = \<lparr>id_task = 1, type_task = GENERATE, prompt = ''hi''\<rparr>"

definition world1 :: World where
  "world1 = (world System_init)\<lparr>state := EngineState_new\<lparr>currentTaskId := 1,
                                                           status := GENERATING\<rparr>\<rparr>"

subsection \<open>What holds at every control point\<close>

text \<open>
  Task identifiers handed out by \<open>main\<close> are positive, in the queue and in the task
  being generated; at the head of the outer loop the engine is not Generating, and when
  it is Idle no task is current and no reset is pending; inside \<open>runGeneration\<close>'s loop
  it is Generating the current task with neither flag set; after the thread's end it is
  ShuttingDown.
\<close>

definition sys_inv :: "System \<Rightarrow> bool" where
  "sys_inv s \<longleftrightarrow>
     1 \<le> nextTaskId s \<and>
     ring_ok TASK_QUEUE_SIZE (taskQueue (world s)) \<and>
     list_all (\<lambda>t. 1 \<le> id_task t) (contents TASK_QUEUE_SIZE (taskQueue (world s))) \<and>
     (case pc s of
        TopLevel \<Rightarrow>
          status (state (world s)) \<noteq> GENERATING \<and>
          (if status (state (world s)) = IDLE
           then currentTaskId (state (world s)) = - 1 \<and> \<not> resetRequested (state (world s))
           else True)
      | InGeneration task token_count \<Rightarrow>
          status (state (world s)) = GENERATING \<and>
          currentTaskId (state (world s)) = id_task task \<and> 1 \<le> id_task task \<and>
          \<not> cancelCurrent (state (world s)) \<and> \<not> resetRequested (state (world s))
      | Exited \<Rightarrow> status (state (world s)) = SHUTTING_DOWN)"

section \<open>Properties of INT4 blocks\<close>

lemma mask4_numeral: "(15 :: 8 word) = mask 4"
  by (simp add: mask_eq_exp_minus_1)

lemma high4_numeral: "(240 :: 8 word) = push_bit 4 (mask 4)"
  by (simp add: mask_eq_exp_minus_1)

lemma low_nibble_after_low_write:
  "((old AND 0xF0) OR (m AND 0x0F)) AND 0x0F = (m AND 0x0F :: 8 word)"
  unfolding mask4_numeral high4_numeral by (rule bit_word_eqI) (auto simp: bit_simps)

lemma high_nibble_after_high_write:
  "drop_bit 4 ((old AND 0x0F) OR push_bit 4 (m AND 0x0F)) AND 0x0F = (m AND 0x0F :: 8 word)"
  unfolding mask4_numeral high4_numeral by (rule bit_word_eqI) (auto simp: bit_simps)

lemma drop_push_nibble: "drop_bit 4 (push_bit 4 c) AND 15 = c AND (15 :: 8 word)"
  unfolding mask4_numeral by (rule bit_word_eqI) (auto simp: bit_simps)

lemma clamp_sint:
  fixes v :: "8 word"
  shows "sint (if (if 7 <s v then 7 else v) <s - 8 then - 8 else (if 7 <s v then 7 else v))
           = clamp_int4 (sint v)"
  by (auto simp: clamp_int4_def word_sless_alt)

lemma int4_range_cases:
  fixes c :: "8 word"
  assumes "- 8 \<le> sint c" "sint c \<le> 7"
  shows "c \<in> {0, 1, 2, 3, 4, 5, 6, 7, - 1, - 2, - 3, - 4, - 5, - 6, - 7, - 8}"
proof -
  have "sint c = - 8 \<or> sint c = - 7 \<or> sint c = - 6 \<or> sint c = - 5 \<or> sint c = - 4
      \<or> sint c = - 3 \<or> sint c = - 2 \<or> sint c = - 1 \<or> sint c = 0 \<or> sint c = 1
      \<or> sint c = 2 \<or> sint c = 3 \<or> sint c = 4 \<or> sint c = 5 \<or> sint c = 6 \<or> sint c = 7"
    using assms by arith
  moreover have "c = word_of_int (sint c)" by simp
  ultimately show ?thesis
    by (metis (no_types, lifting) insert_iff of_int_numeral of_int_0 of_int_1 of_int_minus
        of_int_neg_numeral)
qed

lemma sign_extend_nibble:
  fixes c :: "8 word"
  assumes "- 8 \<le> sint c" "sint c \<le> 7"
  shows "(if (c AND 0x0F) AND 0x08 \<noteq> 0 then (c AND 0x0F) OR 0xF0 else c AND 0x0F) = c"
  using int4_range_cases[OF assms] by auto

lemma set_then_get:
  assumes ok: "block_ok b" and i: "i < num_weights b"
  shows "\<exists>b' r. setWeight b i v = Inr b' \<and> block_ok b' \<and> getWeight b' i = Inr r \<and>
           sint r = clamp_int4 (sint v)"
proof -
  define c :: "8 word"
    where "c = (if (if 7 <s v then 7 else v) <s - 8 then - 8 else (if 7 <s v then 7 else v))"
  have cs: "sint c = clamp_int4 (sint v)" unfolding c_def by (rule clamp_sint)
  have rng: "- 8 \<le> sint c" "sint c \<le> 7" unfolding cs by (simp_all add: clamp_int4_def)
  have len: "i div 2 < length (data b)" using ok i by (auto simp: block_ok_def)
  show ?thesis
    using len i ok sign_extend_nibble[OF rng]
    by (auto simp: setWeight_def getWeight_def Let_def c_def[symmetric] block_ok_def
        low_nibble_after_low_write high_nibble_after_high_write drop_push_nibble cs)
qed

lemma extended_negative: "sint (v OR 0xF0 :: 8 word) < 0"
proof -
  have "bit (v OR 0xF0) 7" by (simp add: bit_or_iff)
  then show ?thesis using bit_last_iff[of "v OR 0xF0"] by simp
qed

lemma nibble_nonnegative: "0 \<le> sint (v AND 0x0F :: 8 word)"
proof -
  have "\<not> bit (v AND 0x0F) 7" by (simp add: bit_and_iff)
  then show ?thesis using bit_last_iff[of "v AND 0x0F"] by simp
qed

lemma nibble_bit3: "bit (n :: 8 word) 3 \<longleftrightarrow> n AND 0x08 \<noteq> 0"
  using bit_iff_and_push_bit_not_eq_0[of n 3] by simp

lemma extend_keeps_nibble: "((n AND 0x0F) OR 0xF0) AND 0x0F = (n AND 0x0F :: 8 word)"
  unfolding mask4_numeral high4_numeral by (rule bit_word_eqI) (auto simp: bit_simps)

lemma get_sign_extends:
  assumes ok: "block_ok b" and i: "i < num_weights b"
  shows "\<exists>r. getWeight b i = Inr r \<and> r AND 0x0F = stored_nibble b i \<and>
           (if bit (stored_nibble b i) 3 then sint r < 0 else 0 \<le> sint r)"
proof -
  have len: "i div 2 < length (data b)" using ok i by (auto simp: block_ok_def)
  have par: "i mod 2 = 0 \<longleftrightarrow> i mod 2 \<noteq> Suc 0" by presburger
  show ?thesis
    using len i
    unfolding getWeight_def stored_nibble_def Let_def par
    by (auto simp: nibble_bit3 extended_negative nibble_nonnegative extend_keeps_nibble)
qed



text \<open>
  C6. For a block laid out as \<open>allocate\<close> leaves it and an index below
  \<open>num_weights\<close>: \<open>setWeight\<close> followed by \<open>getWeight\<close> at the same index returns
  the value clamped to \<open>[-8, 7]\<close>; and \<open>getWeight\<close> returns the stored nibble
  sign-extended, negative exactly when bit 3 of the nibble is set.
\<close>

theorem INT4_set_get:
  assumes "block_ok b" and "i < num_weights b"
  shows "(\<exists>b' r. setWeight b i v = Inr b' \<and> block_ok b' \<and> getWeight b' i = Inr r \<and>
            sint r = clamp_int4 (sint v) \<and> - 8 \<le> sint r \<and> sint r \<le> 7) \<and>
         (\<exists>r. getWeight b i = Inr r \<and> r AND 0x0F = stored_nibble b i \<and>
            (bit (stored_nibble b i) 3 \<longrightarrow> sint r < 0) \<and>
            (\<not> bit (stored_nibble b i) 3 \<longrightarrow> 0 \<le> sint r))"
proof -
  obtain b' r where 1: "setWeight b i v = Inr b'" "block_ok b'" "getWeight b' i = Inr r"
      "sint r = clamp_int4 (sint v)"
    using set_then_get[OF assms] by blast
  have "- 8 \<le> sint r \<and> sint r \<le> 7" unfolding 1(4) by (simp add: clamp_int4_def)
  with 1 have A: "\<exists>b' r. setWeight b i v = Inr b' \<and> block_ok b' \<and> getWeight b' i = Inr r \<and>
            sint r = clamp_int4 (sint v) \<and> - 8 \<le> sint r \<and> sint r \<le> 7" by blast
  obtain r' where 2: "getWeight b i = Inr r'" "r' AND 0x0F = stored_nibble b i"
      "if bit (stored_nibble b i) 3 then sint r' < 0 else 0 \<le> sint r'"
    using get_sign_extends[OF assms] by blast
  have B: "\<exists>r. getWeight b i = Inr r \<and> r AND 0x0F = stored_nibble b i \<and>
            (bit (stored_nibble b i) 3 \<longrightarrow> sint r < 0) \<and>
            (\<not> bit (stored_nibble b i) 3 \<longrightarrow> 0 \<le> sint r)"
  proof (cases "bit (stored_nibble b i) 3")
    case True
    with 2 show ?thesis by simp
  next
    case False
    with 2 show ?thesis by simp
  qed
  from A B show ?thesis by (rule conjI)
qed

theorem INT4_set_get_witness:
  "block_ok (snd (allocate INT4Weights_new 3)) \<and>
   (1 :: nat) < num_weights (snd (allocate INT4Weights_new 3)) \<and>
   (\<exists>b' r. setWeight (snd (allocate INT4Weights_new 3)) 1 (- 100) = Inr b' \<and>
      getWeight b' 1 = Inr r \<and> sint r = - 8)"
proof -
  have ok: "block_ok (snd (allocate INT4Weights_new 3))"
    by (simp add: allocate_def block_ok_def Let_def INT4Weights_new_def)
  have lt: "(1 :: nat) < num_weights (snd (allocate INT4Weights_new 3))"
    by (simp add: allocate_def Let_def)
  have c: "clamp_int4 (sint (- 100 :: 8 word)) = - 8" by (simp add: clamp_int4_def)
  obtain b' r where "setWeight (snd (allocate INT4Weights_new 3)) 1 (- 100) = Inr b'"
     "getWeight b' 1 = Inr r" "sint r = clamp_int4 (sint (- 100 :: 8 word))"
    using INT4_set_get[OF ok lt, of "- 100"] by blast
  with c ok lt show ?thesis by metis
qed

text \<open>
  C10. At an index at or beyond \<open>num_weights\<close>, \<open>getWeight\<close> returns 0 and
  \<open>setWeight\<close> returns the block unchanged; neither touches \<open>data\<close>, so neither can
  run out of bounds, whatever the allocation (a null pointer included).
\<close>

theorem INT4_out_of_range:
  "num_weights b \<le> i \<Longrightarrow> getWeight b i = Inr 0 \<and> setWeight b i v = Inr b"
  by (simp add: getWeight_def setWeight_def)

theorem INT4_out_of_range_witness:
  "num_weights INT4Weights_new \<le> 5 \<and> getWeight INT4Weights_new 5 = Inr 0 \<and>
   setWeight INT4Weights_new 5 7 = Inr INT4Weights_new"
proof -
  have h: "num_weights INT4Weights_new \<le> 5" by (simp add: INT4Weights_new_def)
  show ?thesis using h INT4_out_of_range[OF h, of 7] by simp
qed

section \<open>Properties of the FP16 conversion\<close>

lemma narrow_rebias:
  fixes x :: "32 word"
  shows "(ucast (x - 127 + 15) :: 16 word) = word_of_int (uint x - 112)"
proof -
  have "x - 127 + 15 = (word_of_int (uint x - 112) :: 32 word)" by simp
  then show ?thesis by (simp only: ucast_down_wi is_down len_of_numeral_defs)
qed

lemma sint_rebias:
  fixes x :: "32 word"
  assumes "unat x < 256"
  shows "sint (word_of_int (uint x - 112) :: 16 word) = int (unat x) - 112"
proof -
  have u: "uint x = int (unat x)" by (rule uint_nat)
  have lt: "int (unat x) < 256" using assms by linarith
  have "signed_take_bit 15 (int (unat x) - 112) = int (unat x) - 112"
  proof (rule signed_take_bit_int_eq_self)
    have p: "(2::int) ^ 15 = 32768" by simp
    show "- (2 ^ 15) \<le> int (unat x) - 112" unfolding p by linarith
    show "int (unat x) - 112 < 2 ^ 15" unfolding p using lt by linarith
  qed
  then show ?thesis unfolding u by (simp only: sint_sbintrunc' len_of_numeral_defs) simp
qed

lemma exp_field_bound: "unat (drop_bit 23 (bits :: 32 word) AND 0xFF) < 256"
proof -
  have "unat (drop_bit 23 bits AND 0xFF) \<le> unat (0xFF :: 32 word)"
    by (rule word_and_le1 [THEN word_le_nat_alt [THEN iffD1]])
  then show ?thesis by simp
qed

lemma new_exp_sint:
  "sint (ucast ((drop_bit 23 bits AND 0xFF) - 127 + 15 :: 32 word) :: 16 word)
     = int (unat (drop_bit 23 (bits :: 32 word) AND 0xFF)) - 127 + 15"
  using sint_rebias[OF exp_field_bound, of bits]
  by (simp only: narrow_rebias)

lemma one_mask: "(1 :: 32 word) = mask 1"
  by (simp add: mask_eq_exp_minus_1)

lemma mantissa_mask: "(0x7FFFFF :: 32 word) = mask 23"
  by (simp add: mask_eq_exp_minus_1)

lemma fp16_normal_fields:
  fixes bits :: "32 word" and ne :: "16 word"
  assumes "0 < sint ne" "sint ne < 31"
  defines "r \<equiv> (ucast (push_bit 15 (drop_bit 31 bits AND 0x1) OR push_bit 10 (scast ne :: 32 word)
                     OR drop_bit 13 (bits AND 0x7FFFFF)) :: 16 word)"
  shows "(bit r 15 \<longleftrightarrow> bit bits 31) \<and> uint (take_bit 5 (drop_bit 10 r)) = sint ne
         \<and> take_bit 10 r = ucast (take_bit 10 (drop_bit 13 bits))"
proof -
  have nn: "\<not> bit ne 15" using assms(1) bit_last_iff[of ne] by simp
  have hi: False if "bit ne n" "15 \<le> n" for n
  proof -
    have "n < 16" using bit_imp_le_length[OF that(1)] by simp
    with that(2) have "n = 15" by linarith
    with that(1) nn show False by simp
  qed
  have E: "(scast ne :: 32 word) = ucast ne"
    by (intro bit_word_eqI) (auto simp: bit_simps min_def dest: hi)
  have u: "uint ne = sint ne"
  proof -
    have p: "(2::int) ^ 16 = 65536" by simp
    have "take_bit 16 (sint ne) = sint ne"
    proof (rule take_bit_int_eq_self)
      show "0 \<le> sint ne" using assms(1) by linarith
      show "sint ne < 2 ^ 16" unfolding p using assms(2) by linarith
    qed
    then show ?thesis using uint_sint[of ne] by simp
  qed
  have "uint ne < 2 ^ 5" using assms(2) u by simp
  then have "ne < 2 ^ 5" by (simp add: word_less_def)
  then have tb: "take_bit 5 ne = ne" unfolding take_bit_eq_mask by (rule less_mask_eq)
  have bE: "n < 5" if "bit ne n" for n
    using that tb by (metis bit_take_bit_iff)
  have 1: "bit r 15 \<longleftrightarrow> bit bits 31"
    unfolding r_def E one_mask mantissa_mask by (auto simp: bit_simps dest: bE)
  have 3: "take_bit 10 r = ucast (take_bit 10 (drop_bit 13 bits))"
    unfolding r_def E one_mask mantissa_mask
    by (intro bit_word_eqI) (auto simp: bit_simps dest: bE)
  have 2: "take_bit 5 (drop_bit 10 r) = ne"
    unfolding r_def E one_mask mantissa_mask
    by (intro bit_word_eqI) (auto simp: bit_simps dest: bE)
  show ?thesis using 1 2 3 u by simp
qed

lemma fp16_infinity_bit:
  fixes x :: "32 word"
  assumes "x = 0 \<or> x = 1"
  shows "(ucast (push_bit 15 x OR 0x7C00) :: 16 word) = push_bit 15 (ucast x) OR 0x7C00"
  using assms by auto

lemma fp16_infinity:
  "(ucast (push_bit 15 (s AND 0x1 :: 32 word) OR 0x7C00) :: 16 word)
     = push_bit 15 (ucast (s AND 0x1)) OR 0x7C00"
proof -
  have "s AND 1 = 0 \<or> s AND 1 = 1"
    by (cases "odd s") (simp_all add: and_one_eq mod_2_eq_odd)
  then show ?thesis by (rule fp16_infinity_bit)
qed

text \<open>
  C9. With \<open>e\<close> the rebiased exponent \<open>exp - 127 + 15\<close> of the input pattern:
  the result is 0 when \<open>e \<le> 0\<close>; it is \<open>sign << 15 | 0x7C00\<close> when \<open>e \<ge> 31\<close>;
  otherwise bit 15 of the result is input bit 31, bits 14:10 hold \<open>e\<close> and bits 9:0
  are input bits 22:13.
\<close>

theorem float_to_fp16_policy:
  fixes bits :: u32
  shows "let e = int (unat (drop_bit 23 bits AND 0xFF)) - 127 + 15;
             sign = (ucast (drop_bit 31 bits AND 0x1) :: u16);
             r = float_to_fp16 bits
         in (e \<le> 0 \<longrightarrow> r = 0) \<and>
            (31 \<le> e \<longrightarrow> r = push_bit 15 sign OR 0x7C00) \<and>
            (0 < e \<and> e < 31 \<longrightarrow>
               (bit r 15 \<longleftrightarrow> bit bits 31) \<and>
               uint (take_bit 5 (drop_bit 10 r)) = e \<and>
               take_bit 10 r = ucast (take_bit 10 (drop_bit 13 bits)))"
proof -
  define ne :: "16 word" where "ne = ucast ((drop_bit 23 bits AND 0xFF) - 127 + 15 :: 32 word)"
  define e where "e = int (unat (drop_bit 23 bits AND 0xFF)) - 127 + 15"
  have se: "sint ne = e" unfolding ne_def e_def by (rule new_exp_sint)
  have f: "float_to_fp16 bits =
     (if ne \<le>s 0 then 0
      else if 31 \<le>s ne then ucast (push_bit 15 (drop_bit 31 bits AND 0x1) OR 0x7C00)
      else ucast (push_bit 15 (drop_bit 31 bits AND 0x1) OR push_bit 10 (scast ne :: 32 word)
                  OR drop_bit 13 (bits AND 0x7FFFFF)))"
    unfolding float_to_fp16_def Let_def ne_def by (rule refl)
  have le0: "ne \<le>s 0 \<longleftrightarrow> e \<le> 0" by (simp add: word_sle_eq se)
  have ge31: "31 \<le>s ne \<longleftrightarrow> 31 \<le> e" by (simp add: word_sle_eq se)
  have A: "e \<le> 0 \<longrightarrow> float_to_fp16 bits = 0" unfolding f le0 by simp
  have B: "31 \<le> e \<longrightarrow> float_to_fp16 bits = push_bit 15 (ucast (drop_bit 31 bits AND 0x1)) OR 0x7C00"
    unfolding f le0 ge31 by (simp only: fp16_infinity) simp
  have C: "0 < e \<and> e < 31 \<longrightarrow>
               (bit (float_to_fp16 bits) 15 \<longleftrightarrow> bit bits 31) \<and>
               uint (take_bit 5 (drop_bit 10 (float_to_fp16 bits))) = e \<and>
               take_bit 10 (float_to_fp16 bits) = ucast (take_bit 10 (drop_bit 13 bits))"
  proof
    assume h: "0 < e \<and> e < 31"
    then have n: "\<not> ne \<le>s 0" "\<not> 31 \<le>s ne" unfolding le0 ge31 by simp_all
    have g: "float_to_fp16 bits = ucast (push_bit 15 (drop_bit 31 bits AND 0x1)
                OR push_bit 10 (scast ne :: 32 word) OR drop_bit 13 (bits AND 0x7FFFFF))"
      unfolding f using n by simp
    show "(bit (float_to_fp16 bits) 15 \<longleftrightarrow> bit bits 31) \<and>
               uint (take_bit 5 (drop_bit 10 (float_to_fp16 bits))) = e \<and>
               take_bit 10 (float_to_fp16 bits) = ucast (take_bit 10 (drop_bit 13 bits))"
      unfolding g using fp16_normal_fields[of ne bits] h se by simp
  qed
  show ?thesis unfolding Let_def e_def[symmetric] using A B C by blast
qed

theorem float_to_fp16_policy_witness:
  "float_to_fp16 0 = 0 \<and> float_to_fp16 0xFF800000 = 0xFC00 \<and>
   bit (float_to_fp16 0x3FC00000) 15 = False \<and>
   uint (take_bit 5 (drop_bit 10 (float_to_fp16 0x3FC00000))) = 15 \<and>
   take_bit 10 (float_to_fp16 0x3FC00000) = 0x200"
  using float_to_fp16_policy[of 0] float_to_fp16_policy[of "0xFF800000"]
    float_to_fp16_policy[of "0x3FC00000"]
  by (simp add: Let_def)

section \<open>Properties of the weight loader\<close>

lemma calc_layers_sum:
  "calc_layers ls t = t + sum_list (map layer_serialized_size ls)"
  by (induction ls arbitrary: t) (simp_all add: layer_serialized_size_def)

lemma addr_layers_sum:
  "addr_layers ls t = t + sum_list (map layer_serialized_size ls)"
  by (induction ls arbitrary: t) (simp_all add: layer_serialized_size_def)

lemma calculateDDRSize_required: "calculateDDRSize wl = required_ddr (weights wl)"
  by (simp add: calculateDDRSize_def required_ddr_def calc_layers_sum Let_def)

text \<open>
  C8. \<open>allocateDDR\<close> returns false exactly when the required size (embeddings as
  f16, the six packed blocks and four f16 layer-norm vectors of every layer, lm\_head as
  f16) exceeds the size of the region; either way it records the region in the loader.
\<close>

theorem allocateDDR_insufficient:
  "(fst (allocateDDR wl phys virt sz) = False) = (sz < required_ddr (weights wl)) \<and>
   snd (allocateDDR wl phys virt sz) =
     wl\<lparr>ddr_weights_phys := phys, ddr_weights_virt := virt, ddr_weights_size := sz\<rparr>"
  by (simp add: allocateDDR_def Let_def calculateDDRSize_required)

lemma required0:
  "required_ddr (weights (snd (loadFromBinary WeightLoader_new (Some header0)))) = 64"
  by code_simp

theorem allocateDDR_insufficient_witness:
  "fst (allocateDDR (snd (loadFromBinary WeightLoader_new (Some header0))) 0 1 63) = False \<and>
   fst (allocateDDR (snd (loadFromBinary WeightLoader_new (Some header0))) 0 1 64) = True"
  using allocateDDR_insufficient
          [of "snd (loadFromBinary WeightLoader_new (Some header0))" 0 1 63]
        allocateDDR_insufficient
          [of "snd (loadFromBinary WeightLoader_new (Some header0))" 0 1 64]
  by (simp add: required0)

lemma getLayerAddress_step:
  assumes "Suc i < length (layers (weights wl))"
  shows "getLayerAddress wl (Suc i) - getLayerAddress wl i
           = of_nat (layer_serialized_size (layers (weights wl) ! i))"
proof -
  have t: "take (Suc i) (layers (weights wl)) = take i (layers (weights wl)) @ [layers (weights wl) ! i]"
    using assms by (simp add: take_Suc_conv_app_nth)
  show ?thesis
    using assms by (simp add: getLayerAddress_def Let_def addr_layers_sum t)
qed

lemma memcpy_to_length:
  "memcpy_to region offset bytes = Inr region' \<Longrightarrow> length region' = length region"
  by (auto simp: memcpy_to_def split: if_splits)

lemma copy_int4_offset:
  "copy_int4 w (off, r) = Inr (off', r') \<Longrightarrow> off' = off + data_size w"
  by (auto simp: copy_int4_def ebind_def split: if_splits sum.splits)

lemma copy_fp16_offset:
  "copy_fp16 vs (off, r) = Inr (off', r') \<Longrightarrow> off' = off + 2 * length vs"
proof (induction vs arbitrary: off r)
  case Nil
  then show ?case by simp
next
  case (Cons v vs)
  from Cons.prems obtain r1 where "copy_fp16 vs (off + 2, r1) = Inr (off', r')"
    by (auto simp: ebind_def split: sum.splits)
  from Cons.IH[OF this] show ?case by simp
qed

lemma copy_layer_offset:
  assumes "copy_layer l (off, r) = Inr (off', r')"
  shows "off' = off + data_size (q_weights l) + data_size (k_weights l)
           + data_size (v_weights l) + data_size (o_weights l) + data_size (ffn_up l)
           + data_size (ffn_down l) + 2 * length (ln1_weight l)"
  using assms
  by (auto simp: copy_layer_def ebind_def split: sum.splits
      dest!: copy_int4_offset copy_fp16_offset)

text \<open>
  C5, evaluated on the small model file. \<open>getLayerAddress\<close> places layer 0 at
  offset 8 of the region and layer 1 at offset 36, a stride of 28 bytes; \<open>copyToDDR\<close>
  writes layer 0 at offset 4 (it skips the position embeddings) and advances by 16
  bytes for it (it writes only \<open>ln1_weight\<close> of the four layer-norm vectors), 36 bytes
  in all where \<open>calculateDDRSize\<close> requires 64.
\<close>

theorem layer_stride_mismatch:
  "getLayerAddress loader0 0 = 0x10000000 + 8 \<and>
   getLayerAddress loader0 1 - getLayerAddress loader0 0 = 28 \<and>
   copy_fp16 (token_embeddings (weights loader0)) (0, replicate 64 0)
     = Inr (4, replicate 64 0) \<and>
   copy_layer (layers (weights loader0) ! 0) (4, replicate 64 0)
     = Inr (20, replicate 64 0) \<and>
   copyToDDR loader0 (replicate 64 0) = Inr (True, 36, replicate 64 0) \<and>
   calculateDDRSize loader0 = 64"
  by code_simp

section \<open>Properties of the bounded queue\<close>

lemma ring_ok_new: "0 < N \<Longrightarrow> ring_ok N (Queue_new N d)"
  by (simp add: ring_ok_def Queue_new_def)

lemma contents_new: "contents N (Queue_new N d) = []"
  by (simp add: contents_def Queue_new_def)

lemma ring_slot_distinct:
  assumes "k < c" "c < N"
  shows "(h + k) mod N \<noteq> (h + c) mod (N :: nat)"
proof
  assume e: "(h + k) mod N = (h + c) mod N"
  have "h + k \<le> h + c" using assms by simp
  then have "N dvd (h + c) - (h + k)"
    using e mod_eq_dvd_iff_nat[of "h + k" "h + c" N] by simp
  then have "N dvd c - k" by simp
  moreover have "0 < c - k" "c - k < N" using assms by simp_all
  ultimately show False using nat_dvd_not_less by blast
qed


lemma push_full: "N \<le> count q \<Longrightarrow> push N q x = (False, q)"
  by (simp add: push_def)

lemma push_ok:
  assumes "ring_ok N q" "count q < N"
  shows "fst (push N q x)" and "ring_ok N (snd (push N q x))"
    and "contents N (snd (push N q x)) = contents N q @ [x]"
proof -
  have N: "0 < N" using assms by simp
  have len: "length (buffer q) = N" and t: "tail q = (head q + count q) mod N"
    using assms by (simp_all add: ring_ok_def)
  show "fst (push N q x)" using assms by (simp add: push_def)
  show "ring_ok N (snd (push N q x))"
    using assms N by (simp add: push_def ring_ok_def mod_Suc_eq)
  have old: "(buffer q)[tail q := x] ! ((head q + k) mod N) = buffer q ! ((head q + k) mod N)"
    if "k < count q" for k
    using ring_slot_distinct[OF that assms(2), of "head q"] t by simp
  have new: "(buffer q)[tail q := x] ! ((head q + count q) mod N) = x"
    using t len N by simp
  show "contents N (snd (push N q x)) = contents N q @ [x]"
    using assms(2) old new by (simp add: push_def contents_def)
qed

lemma pop_empty: "count q = 0 \<Longrightarrow> pop N q = None"
  by (simp add: pop_def)

lemma pop_ok:
  assumes "ring_ok N q" "0 < count q"
  shows "\<exists>x q'. pop N q = Some (x, q') \<and> ring_ok N q' \<and> contents N q = x # contents N q'"
proof -
  have N: "0 < N" and h: "head q < N" using assms by (simp_all add: ring_ok_def)
  obtain c where c: "count q = Suc c" using assms(2) by (cases "count q") simp_all
  define q' where "q' = q\<lparr>head := (head q + 1) mod N, count := count q - 1\<rparr>"
  have p: "pop N q = Some (buffer q ! head q, q')"
    using assms(2) by (simp add: pop_def q'_def)
  have r: "ring_ok N q'"
    using assms N c by (simp add: ring_ok_def q'_def mod_Suc_eq mod_add_left_eq)
  have "contents N q = buffer q ! head q # contents N q'"
    using h c
    by (simp add: contents_def q'_def upt_rec[of 0] map_Suc_upt[symmetric] mod_Suc_eq
        mod_add_left_eq del: upt_Suc)
  with p r show ?thesis by blast
qed

lemma exec_ops_inv:
  assumes "0 < N"
  shows "ring_ok N q \<Longrightarrow> pushed = popped @ contents N q \<Longrightarrow>
         exec_ops N ops (q, pushed, popped) = (q', pushed', popped') \<Longrightarrow>
         ring_ok N q' \<and> pushed' = popped' @ contents N q'"
proof (induction ops arbitrary: q pushed popped)
  case Nil
  then show ?case by auto
next
  case (Cons op ops)
  show ?case
  proof (cases op)
    case (Push x)
    show ?thesis
    proof (cases "count q < N")
      case True
      note ok = push_ok[OF Cons.prems(1) True, of x]
      from Cons.prems(3) Push ok(1)
      have e: "exec_ops N ops (snd (push N q x), pushed @ [x], popped) = (q', pushed', popped')"
        by simp
      show ?thesis
        by (rule Cons.IH[OF ok(2) _ e]) (simp add: ok(3) Cons.prems(2))
    next
      case False
      then have f: "push N q x = (False, q)" by (simp add: push_full)
      from Cons.prems(3) Push f
      have e: "exec_ops N ops (q, pushed, popped) = (q', pushed', popped')" by simp
      show ?thesis by (rule Cons.IH[OF Cons.prems(1) Cons.prems(2) e])
    qed
  next
    case TryPop
    show ?thesis
    proof (cases "count q = 0")
      case True
      from Cons.prems(3) TryPop True
      have e: "exec_ops N ops (q, pushed, popped) = (q', pushed', popped')"
        by (simp add: tryPop_def pop_empty)
      show ?thesis by (rule Cons.IH[OF Cons.prems(1) Cons.prems(2) e])
    next
      case False
      then obtain x q1 where p: "pop N q = Some (x, q1)" "ring_ok N q1"
          "contents N q = x # contents N q1"
        using pop_ok[OF Cons.prems(1)] by blast
      from Cons.prems(3) TryPop p(1)
      have e: "exec_ops N ops (q1, pushed, popped @ [x]) = (q', pushed', popped')"
        by (simp add: tryPop_def)
      show ?thesis
        by (rule Cons.IH[OF p(2) _ e]) (simp add: p(3) Cons.prems(2))
    qed
  qed
qed


text \<open>
  C7. After any sequence of \<open>push\<close> and \<open>tryPop\<close> on a new queue of capacity
  \<open>N > 0\<close>: the items popped are a prefix of the items pushed with success (what
  remains is the queue's contents, in order); \<open>count\<close> is at most \<open>N\<close>, \<open>head\<close> and
  \<open>tail\<close> are below \<open>N\<close>; the next \<open>push\<close> fails exactly when \<open>count = N\<close> and the
  next \<open>tryPop\<close> exactly when \<open>count = 0\<close>; a successful \<open>push\<close> advances \<open>tail\<close> and
  a successful \<open>tryPop\<close> advances \<open>head\<close> by one modulo \<open>N\<close>.
\<close>

theorem queue_fifo:
  assumes "0 < N"
  shows "case exec_ops N ops (Queue_new N d, [], []) of (q, pushed, popped) \<Rightarrow>
     prefix popped pushed \<and> pushed = popped @ contents N q \<and>
     count q \<le> N \<and> head q < N \<and> tail q < N \<and>
     (\<forall>x. (fst (push N q x) = False) = (count q = N)) \<and>
     ((tryPop N q = None) = (count q = 0)) \<and>
     (\<forall>x. fst (push N q x) \<longrightarrow>
        tail (snd (push N q x)) = (tail q + 1) mod N \<and>
        head (snd (push N q x)) = head q \<and>
        count (snd (push N q x)) = count q + 1) \<and>
     (\<forall>x q'. tryPop N q = Some (x, q') \<longrightarrow>
        head q' = (head q + 1) mod N \<and> tail q' = tail q \<and> count q' = count q - 1 \<and>
        contents N q = x # contents N q')"
proof -
  obtain q pushed popped where e: "exec_ops N ops (Queue_new N d, [], []) = (q, pushed, popped)"
    by (cases "exec_ops N ops (Queue_new N d, [], [])") auto
  have inv: "ring_ok N q \<and> pushed = popped @ contents N q"
    by (rule exec_ops_inv[OF assms ring_ok_new[OF assms] _ e]) (simp add: contents_new)
  then have r: "ring_ok N q" and c: "pushed = popped @ contents N q" by simp_all
  have 1: "prefix popped pushed" using c by simp
  have 2: "count q \<le> N" "head q < N" "tail q < N"
    using r assms by (simp_all add: ring_ok_def)
  have 3: "(fst (push N q x) = False) = (count q = N)" for x
    using 2(1) by (auto simp: push_def)
  have 4: "(tryPop N q = None) = (count q = 0)"
    by (simp add: tryPop_def pop_def)
  have 5: "tail (snd (push N q x)) = (tail q + 1) mod N \<and> head (snd (push N q x)) = head q \<and>
        count (snd (push N q x)) = count q + 1" if "fst (push N q x)" for x
    using that by (auto simp: push_def split: if_splits)
  have 6: "head q' = (head q + 1) mod N \<and> tail q' = tail q \<and> count q' = count q - 1 \<and>
        contents N q = x # contents N q'" if "tryPop N q = Some (x, q')" for x q'
  proof -
    from that have pos: "0 < count q" by (auto simp: tryPop_def pop_def split: if_splits)
    from pop_ok[OF r pos] that have "contents N q = x # contents N q'"
      by (auto simp: tryPop_def)
    with that show ?thesis by (auto simp: tryPop_def pop_def split: if_splits)
  qed
  show ?thesis unfolding e using 1 c 2 3 4 5 6 by simp
qed

theorem queue_fifo_witness:
  "(0 :: nat) < 2 \<and>
   exec_ops 2 [Push 1, Push 2, Push 3, TryPop, TryPop, TryPop, Push 4] (Queue_new 2 (0 :: nat), [], [])
     = (\<lparr>buffer = [4, 2], head = 0, tail = 1, count = 1\<rparr>, [1, 2, 4], [1, 2]) \<and>
   prefix [1, 2] [1, 2, 4 :: nat]"
proof -
  have e: "exec_ops 2 [Push 1, Push 2, Push 3, TryPop, TryPop, TryPop, Push 4] (Queue_new 2 (0 :: nat), [], [])
     = (\<lparr>buffer = [4, 2], head = 0, tail = 1, count = 1\<rparr>, [1, 2, 4], [1, 2])"
    by code_simp
  have n: "(0 :: nat) < 2" by simp
  show ?thesis
    using queue_fifo[OF n, of "[Push 1, Push 2, Push 3, TryPop, TryPop, TryPop, Push 4]" 0]
    unfolding e by simp
qed

section \<open>Properties of the configuration framing\<close>

lemma byte_high_bit: "bit (b :: 8 word) (8 + n) = False" "bit b (16 + n) = False"
  "bit b (24 + n) = False" "bit b (32 + n) = False" "bit b (40 + n) = False"
  "bit b (48 + n) = False" "bit b (56 + n) = False"
  using bit_imp_le_length[of b] by fastforce+

lemma le_word_bytes32: "le_word (le_bytes32 w) = w"
proof (rule bit_word_eqI)
  fix n assume "n < LENGTH(32)"
  then show "bit (le_word (le_bytes32 w) :: 32 word) n = bit w n"
    unfolding le_word_def le_bytes32_def
    by (cases "n < 8"; cases "n < 16"; cases "n < 24") (auto simp: bit_simps)
qed

lemma le_word_bytes64: "le_word (le_bytes64 w) = w"
proof (rule bit_word_eqI)
  fix n assume "n < LENGTH(64)"
  then show "bit (le_word (le_bytes64 w) :: 64 word) n = bit w n"
    unfolding le_word_def le_bytes64_def
    by (cases "n < 8"; cases "n < 16"; cases "n < 24"; cases "n < 32"; cases "n < 40";
        cases "n < 48"; cases "n < 56") (auto simp: bit_simps)
qed

lemma le_bytes32_word: "le_bytes32 (le_word [b0, b1, b2, b3]) = [b0, b1, b2, b3]"
  unfolding le_word_def le_bytes32_def
  by (simp, intro conjI; rule bit_word_eqI) (auto simp: bit_simps byte_high_bit)

lemma length_le_bytes32 [simp]: "length (le_bytes32 w) = 4"
  by (simp add: le_bytes32_def)

lemma length_le_bytes64 [simp]: "length (le_bytes64 w) = 8"
  by (simp add: le_bytes64_def)

lemma length_bytes_of_words [simp]: "length (bytes_of_words ws) = 4 * length ws"
  by (induction ws) (simp_all add: bytes_of_words_def)

lemma words_of_bytes_words: "words_of_bytes (bytes_of_words ws) = ws"
proof (induction ws)
  case Nil
  then show ?case by (simp add: bytes_of_words_def)
next
  case (Cons w ws)
  have "le_word (le_bytes32 w) = w" by (rule le_word_bytes32)
  then show ?case using Cons
    by (simp add: bytes_of_words_def le_bytes32_def)
qed

lemma bytes_of_words_bytes:
  "length bs mod 4 = 0 \<Longrightarrow> bytes_of_words (words_of_bytes bs) = bs"
proof (induction bs rule: words_of_bytes.induct)
  case (1 b0 b1 b2 b3 rest)
  then have "length rest mod 4 = 0" by simp
  with 1 show ?case by (simp add: bytes_of_words_def le_bytes32_word)
qed (simp_all add: bytes_of_words_def)

lemma length_object_bytes: "length (object_bytes c) = 72 + 4 * length (reserved c)"
  by (simp add: object_bytes_def)

lemma length_words_of_bytes: "length (words_of_bytes bs) = length bs div 4"
  by (induction bs rule: words_of_bytes.induct) simp_all

lemma object_of_object_bytes:
  "length (reserved c) = 20 \<Longrightarrow> object_of_bytes (object_bytes c) = c"
  by (simp add: object_of_bytes_def object_bytes_def le_word_bytes32 le_word_bytes64
      words_of_bytes_words)

text \<open>
  C1. Unpacking the 38 words that \<open>pack\<close> produces from an object gives back the
  object, field for field. \<open>pack\<close> is a function of the object alone (the method is
  \<open>const\<close> and reads nothing else), so packing the same value twice gives the same
  words.
\<close>

theorem config_roundtrip:
  assumes "length (reserved c) = 20"
  shows "unpack (pack c) = Inr c \<and> length (pack c) = 38"
proof -
  have len: "length (object_bytes c) = 152"
    using assms by (simp add: length_object_bytes)
  then have p: "pack c = words_of_bytes (object_bytes c)"
    by (simp add: pack_def)
  have l: "length (pack c) = 38"
    unfolding p by (simp add: length_words_of_bytes len)
  have b: "bytes_of_words (pack c) = object_bytes c"
    unfolding p by (rule bytes_of_words_bytes) (simp add: len)
  have "unpack (pack c) = Inr (object_of_bytes (object_bytes c))"
    using l len by (simp add: unpack_def b)
  then show ?thesis using l object_of_object_bytes[OF assms] by simp
qed

theorem config_roundtrip_witness:
  "length (reserved (ConfigIn_new\<lparr>input_buffer_addr := 0x1122334455667788, stride := 128,
       max_tokens := 2048, task_id := 42\<rparr>)) = 20 \<and>
   unpack (pack (ConfigIn_new\<lparr>input_buffer_addr := 0x1122334455667788, stride := 128,
       max_tokens := 2048, task_id := 42\<rparr>))
     = Inr (ConfigIn_new\<lparr>input_buffer_addr := 0x1122334455667788, stride := 128,
       max_tokens := 2048, task_id := 42\<rparr>)"
proof -
  have h: "length (reserved (ConfigIn_new\<lparr>input_buffer_addr := 0x1122334455667788,
       stride := 128, max_tokens := 2048, task_id := 42\<rparr>)) = 20"
    by (simp add: ConfigIn_new_def)
  show ?thesis using h config_roundtrip[OF h] by simp
qed

lemma pack_low_word_first:
  "take 8 (pack (ConfigIn_new\<lparr>input_buffer_addr := 0x1122334455667788, stride := 128,
       max_tokens := 2048, task_id := 42\<rparr>))
     = [0x55667788, 0x11223344, 0, 0, 0, 0, 128, 2048]"
  by code_simp

section \<open>Properties of the accelerator driver\<close>

lemma readReg_status_word:
  "i < 4 \<Longrightarrow> readReg a (XACCELERATOR_STATUS_OUT_OFFSET i) = status_words a ! i"
proof -
  assume "i < 4"
  then have "i = 0 \<or> i = 1 \<or> i = 2 \<or> i = 3" by arith
  then show ?thesis
    by (auto simp: readReg_def XACCELERATOR_STATUS_OUT_OFFSET_def
        XACCELERATOR_STATUS_OUT_BASE_def XACCELERATOR_CTRL_ADDR_AP_CTRL_def
        XACCELERATOR_STATUS_OUT_CTRL_def Let_def)
qed

lemma readStatus_reload: "readStatus a = a\<lparr>Accelerator.status := status_unpack (status_words a)\<rparr>"
proof -
  have v: "readReg a XACCELERATOR_STATUS_OUT_CTRL AND XACCELERATOR_STATUS_OUT_AP_VLD \<noteq> 0"
    by (simp add: readReg_def XACCELERATOR_STATUS_OUT_CTRL_def
        XACCELERATOR_STATUS_OUT_AP_VLD_def XACCELERATOR_CTRL_ADDR_AP_CTRL_def
        XACCELERATOR_STATUS_OUT_BASE_def)
  have u: "[0..<XACCELERATOR_STATUS_OUT_WORDS] = [0, 1, 2, 3]"
    by (simp add: XACCELERATOR_STATUS_OUT_WORDS_def upt_rec[of 0] upt_rec[of 1] upt_rec[of 2]
        upt_rec[of 3] upt_rec[of "Suc 0"] upt_rec[of "Suc (Suc 0)"]
        upt_rec[of "Suc (Suc (Suc 0))"] eval_nat_numeral)
  have s: "b\<lparr>status_words := (status_words b)[i := readReg b (XACCELERATOR_STATUS_OUT_OFFSET i)]\<rparr> = b"
    if "i < 4" for b :: Accelerator and i
    using readReg_status_word[OF that, of b] by simp
  show ?thesis
    unfolding readStatus_def Let_def u using v by (simp add: s)
qed


lemma getNextToken_yields:
  "(fst (getNextToken a) \<noteq> None) =
     (isValid (status_unpack (status_words a)) \<and> \<not> isDone (status_unpack (status_words a)))"
  by (simp add: getNextToken_def readStatus_reload Let_def)

lemma getNextToken_status_words: "status_words (snd (getNextToken a)) = status_words a"
  by (simp add: getNextToken_def readStatus_reload Let_def)

lemma getNextToken_tokens_generated:
  "tokens_generated (Accelerator.status (snd (getNextToken a))) =
     (if fst (getNextToken a) \<noteq> None \<and> token_counter a \<le> 10
      then status_words a ! 1 + 1 else status_words a ! 1)"
  by (simp add: getNextToken_def readStatus_reload Let_def status_unpack_def)

text \<open>From construction on, the status words are zero, and no operation of the
  driver writes anything else into them: no call of \<open>getNextToken\<close> yields.\<close>

lemma zero_status_never_yields:
  "status_words a = replicate 4 0 \<Longrightarrow> fst (getNextToken a) = None"
  using getNextToken_yields[of a]
  by (simp add: isValid_def status_unpack_def)

lemma fold_writeReg: "fold (\<lambda>i a. writeReg a (f i) (g i a)) xs a = a"
  by (induction xs) (simp_all add: writeReg_def)

lemma status_words_preserved:
  "status_words (configure a i o' k s m) = status_words a"
  "status_words (setTaskConfig a t p) = status_words a"
  "status_words (startInference a t ts) = status_words a"
  "status_words (readStatus a) = status_words a"
  "status_words (reset a) = status_words a"
  by (simp_all add: configure_def setTaskConfig_def startInference_def readStatus_reload
      reset_def fold_writeReg Let_def, simp_all add: writeReg_def)

lemma driver_step_status_words: "status_words (driver_step op a) = status_words a"
  by (cases op)
     (simp_all add: status_words_preserved getNextToken_status_words getStatus_def Let_def)

lemma driver_trace_never_yields:
  "status_words a = replicate 4 0 \<Longrightarrow> \<forall>x \<in> set (driver_trace ops a). fst x = None"
proof (induction ops arbitrary: a)
  case Nil
  then show ?case by simp
next
  case (Cons op ops)
  have s: "status_words (driver_step op a) = replicate 4 0"
    using Cons.prems by (simp add: driver_step_status_words)
  show ?case
  proof (cases "op = GetNextToken")
    case True
    have "fst (getNextToken a) = None" by (rule zero_status_never_yields[OF Cons.prems])
    moreover have "\<forall>x \<in> set (driver_trace ops (snd (getNextToken a))). fst x = None"
      using Cons.IH[of "driver_step op a"] s True by simp
    ultimately show ?thesis using True by simp
  next
    case False
    then have "driver_trace (op # ops) a = driver_trace ops (driver_step op a)"
      by (cases op) simp_all
    then show ?thesis using Cons.IH[OF s] by simp
  qed
qed

lemma no_yield_no_double_count:
  "\<forall>x \<in> set t. fst x = None \<Longrightarrow> no_double_count prev t"
  by (induction t arbitrary: prev) auto

lemma status_words_new: "status_words Accelerator_new = replicate 4 0"
  by (simp add: Accelerator_new_def)

text \<open>
  C2. In every use of the driver, the calls of \<open>getNextToken\<close> respect the rule that a
  call yields only when \<open>tokens_generated\<close> is above its value at the last call that
  yielded. (The driver keeps no last-returned value; the rule holds because the status
  words stay as the constructor leaves them, so that each call reloads a status that is
  not valid and none yields: lemma \<open>driver_trace_never_yields\<close>.)
\<close>

theorem driver_no_double_count:
  "no_double_count None (driver_trace ops Accelerator_new)"
  by (rule no_yield_no_double_count)
     (rule driver_trace_never_yields[OF status_words_new])

theorem driver_no_double_count_witness:
  "driver_trace
     [Configure 0x10000000 0x20000000 0x30000000 128 2048, StartInference 1 [104, 105],
      GetNextToken, GetNextToken] Accelerator_new
     = [(None, 0), (None, 0)] \<and>
   no_double_count None
     (driver_trace
        [Configure 0x10000000 0x20000000 0x30000000 128 2048, StartInference 1 [104, 105],
         GetNextToken, GetNextToken] Accelerator_new)"
proof -
  have e: "driver_trace
     [Configure 0x10000000 0x20000000 0x30000000 128 2048, StartInference 1 [104, 105],
      GetNextToken, GetNextToken] Accelerator_new
     = [(None, 0), (None, 0)]"
    by (simp add: getNextToken_def readStatus_reload Let_def status_unpack_def isValid_def
        status_words_preserved status_words_new)
  show ?thesis
    using e driver_no_double_count
      [of "[Configure 0x10000000 0x20000000 0x30000000 128 2048, StartInference 1 [104, 105],
            GetNextToken, GetNextToken]"]
    by simp
qed

section \<open>Properties of the generation routine\<close>

lemma terminal_markers_sent:
  "is_terminal_marker msg_eos" "is_terminal_marker msg_aborted"
  "is_terminal_marker msg_max_tokens"
  by (simp_all add: is_terminal_marker_def msg_eos_def msg_aborted_def msg_max_tokens_def
      EOS_MARKER_def ABORTED_MARKER_def MAX_TOKENS_MARKER_def suffix_to_prefix)

lemma other_texts_not_terminal:
  "\<not> is_terminal_marker msg_shutdown" "\<not> is_terminal_marker msg_generating"
  "\<not> is_terminal_marker msg_cleared" "\<not> is_terminal_marker msg_cleared_idle"
  by (simp_all add: is_terminal_marker_def msg_shutdown_def msg_generating_def msg_cleared_def
      msg_cleared_idle_def EOS_MARKER_def ABORTED_MARKER_def MAX_TOKENS_MARKER_def
      suffix_to_prefix nl_def)

lemma other_texts_not_end:
  "\<not> is_end_message msg_generating" "\<not> is_end_message msg_cleared"
  by (simp_all add: is_end_message_def other_texts_not_terminal)
     (simp_all add: msg_shutdown_def msg_generating_def msg_cleared_def nl_def)

lemma suffix_last:
  assumes "suffix m t" "m \<noteq> []"
  shows "last t = last m" and "length m \<le> length t"
  using assms by (auto simp: suffix_def)

lemma no_long_suffix: "1 < length x \<Longrightarrow> \<not> suffix x [c]"
  using suffix_length_le[of x "[c]"] by auto

lemma detokenize_shape:
  "(\<exists>c. detokenize t = [c]) \<or> (\<exists>ds. detokenize t = ''[T'' @ ds @ '']'')"
  by (auto simp: detokenize_def)

lemma detokenize_not_end: "\<not> is_end_message (detokenize t)"
proof -
  have m: "EOS_MARKER \<noteq> []" "ABORTED_MARKER \<noteq> []" "MAX_TOKENS_MARKER \<noteq> []"
    "last EOS_MARKER = nl" "last ABORTED_MARKER = nl" "last MAX_TOKENS_MARKER = nl"
    "1 < length EOS_MARKER" "1 < length ABORTED_MARKER" "1 < length MAX_TOKENS_MARKER"
    by (simp_all add: EOS_MARKER_def ABORTED_MARKER_def MAX_TOKENS_MARKER_def)
  consider c where "detokenize t = [c]" | ds where "detokenize t = ''[T'' @ ds @ '']''"
    using detokenize_shape[of t] by blast
  then show ?thesis
  proof cases
    case 1
    then show ?thesis
      using m(7-9) no_long_suffix[of _ c]
      by (auto simp: is_end_message_def is_terminal_marker_def msg_shutdown_def)
  next
    case 2
    have l: "last (detokenize t) = CHR '']''" unfolding 2 by simp
    have "\<not> suffix x (detokenize t)" if "x \<noteq> []" "last x = nl" for x
      using suffix_last(1)[OF _ that(1), of "detokenize t"] that(2) l by (auto simp: nl_def)
    then have "\<not> is_terminal_marker (detokenize t)"
      using m by (auto simp: is_terminal_marker_def)
    moreover have "detokenize t \<noteq> msg_shutdown"
      unfolding 2 by (simp add: msg_shutdown_def nl_def)
    ultimately show ?thesis by (simp add: is_end_message_def)
  qed
qed


lemma shell_pushes_frame:
  "state (shell_pushes cs w) = state w" "ui_output (shell_pushes cs w) = ui_output w"
  "taskQueue (shell_pushes cs w) = taskQueue w" "accel (shell_pushes cs w) = accel w"
  by (induction cs arbitrary: w) (simp_all add: shell_pushes_def)

lemma loop_body_cases:
  assumes "loop_body w tc = (ret, tc', w')"
    and "\<not> cancelCurrent (state w)" and "\<not> resetRequested (state w)"
  shows "taskQueue w' = taskQueue w \<and> currentTaskId (state w') = currentTaskId (state w) \<and>
     (if ret then
        (status (state w') = SHUTTING_DOWN \<and> ui_output w' = ui_output w @ [msg_shutdown]) \<or>
        (status (state w') = status (state w) \<and> \<not> resetRequested (state w') \<and>
          (ui_output w' = ui_output w @ [msg_aborted] \<or>
           ui_output w' = ui_output w @ [msg_aborted, msg_cleared] \<or>
           ui_output w' = ui_output w @ [msg_eos]))
      else state w' = state w \<and>
        (ui_output w' = ui_output w \<or> (\<exists>t. ui_output w' = ui_output w @ [detokenize t])))"
  using assms
  by (auto simp: loop_body_def sendOutputToUI_def clearKvCache_def Let_def
      split: option.splits prod.splits CommandType.splits if_splits)

lemma gen_loop_end:
  assumes "gen_loop sched tc w = Some w'"
    and "status (state w) = GENERATING"
    and "\<not> cancelCurrent (state w)" and "\<not> resetRequested (state w)"
  shows "\<exists>mid tail. ui_output w' = ui_output w @ mid @ tail \<and>
           (\<forall>t \<in> set mid. \<not> is_end_message t) \<and>
           ((status (state w') = SHUTTING_DOWN \<and> tail = [msg_shutdown]) \<or>
            (status (state w') = GENERATING \<and> \<not> resetRequested (state w') \<and>
               (tail = [msg_aborted] \<or> tail = [msg_aborted, msg_cleared] \<or>
                tail = [msg_eos] \<or> tail = [msg_max_tokens])))"
  using assms
proof (induction sched arbitrary: tc w)
  case Nil
  then have "w' = sendOutputToUI w msg_max_tokens" by (simp split: if_splits)
  then have "ui_output w' = ui_output w @ [] @ [msg_max_tokens]" "state w' = state w"
    by (simp_all add: sendOutputToUI_def)
  with Nil.prems show ?case by (metis empty_iff list.set(1))
next
  case (Cons arrivals sched)
  show ?case
  proof (cases "tc < MAX_TOKENS")
    case False
    with Cons.prems(1) have "w' = sendOutputToUI w msg_max_tokens" by simp
    then have "ui_output w' = ui_output w @ [] @ [msg_max_tokens]" "state w' = state w"
      by (simp_all add: sendOutputToUI_def)
    with Cons.prems show ?thesis by (metis empty_iff list.set(1))
  next
    case True
    define w0 where "w0 = shell_pushes arrivals w"
    obtain ret tc1 w1 where b: "loop_body w0 tc = (ret, tc1, w1)"
      by (cases "loop_body w0 tc") auto
    have f: "state w0 = state w" "ui_output w0 = ui_output w"
      by (simp_all add: w0_def shell_pushes_frame)
    note c = loop_body_cases[OF b, unfolded f, OF Cons.prems(3) Cons.prems(4)]
    show ?thesis
    proof (cases ret)
      case True
      with Cons.prems(1) \<open>tc < MAX_TOKENS\<close> b have e: "w' = w1" by (simp add: w0_def)
      from c True Cons.prems(2) have
        "(status (state w1) = SHUTTING_DOWN \<and> ui_output w1 = ui_output w @ [] @ [msg_shutdown]) \<or>
         (status (state w1) = GENERATING \<and> \<not> resetRequested (state w1) \<and>
          (ui_output w1 = ui_output w @ [] @ [msg_aborted] \<or>
           ui_output w1 = ui_output w @ [] @ [msg_aborted, msg_cleared] \<or>
           ui_output w1 = ui_output w @ [] @ [msg_eos]))"
        by auto
      then show ?thesis unfolding e by (metis empty_iff list.set(1))
    next
      case False
      with Cons.prems(1) \<open>tc < MAX_TOKENS\<close> b have e: "gen_loop sched tc1 w1 = Some w'"
        by (simp add: w0_def)
      from c False have s1: "state w1 = state w" by simp
      from c False obtain pre where pre: "ui_output w1 = ui_output w @ pre"
          "\<forall>t \<in> set pre. \<not> is_end_message t"
        using detokenize_not_end by (auto simp del: append_assoc)
      from Cons.IH[OF e] s1 Cons.prems obtain mid tail where
        m: "ui_output w' = ui_output w1 @ mid @ tail" "\<forall>t \<in> set mid. \<not> is_end_message t"
          "(status (state w') = SHUTTING_DOWN \<and> tail = [msg_shutdown]) \<or>
            (status (state w') = GENERATING \<and> \<not> resetRequested (state w') \<and>
               (tail = [msg_aborted] \<or> tail = [msg_aborted, msg_cleared] \<or>
                tail = [msg_eos] \<or> tail = [msg_max_tokens]))"
        by auto
      have "ui_output w' = ui_output w @ (pre @ mid) @ tail" using m(1) pre(1) by simp
      moreover have "\<forall>t \<in> set (pre @ mid). \<not> is_end_message t" using m(2) pre(2) by auto
      ultimately show ?thesis using m(3) by blast
    qed
  qed
qed


lemma terminal_is_end: "is_terminal_marker t \<Longrightarrow> is_end_message t"
  by (simp add: is_end_message_def)

lemma filter_none: "\<forall>t \<in> set xs. \<not> P t \<Longrightarrow> filter P xs = []"
  by (induction xs) auto

text \<open>
  C3 as stated fails when a Shutdown command is taken during generation: the routine
  sends \<open>[Aborted: shutdown requested]\<close>, which is none of the three terminal markers,
  and the engine enters ShuttingDown.
\<close>

theorem shutdown_sends_no_terminal_marker:
  "map_option ui_output (runGeneration [[\<lparr>type_cmd = SHUTDOWN\<rparr>]] task1 world1)
     = Some [msg_generating, msg_shutdown] \<and>
   map_option (\<lambda>w. status (state w)) (runGeneration [[\<lparr>type_cmd = SHUTDOWN\<rparr>]] task1 world1)
     = Some SHUTTING_DOWN \<and>
   terminal_count [msg_generating, msg_shutdown] = 0"
  by (simp add: runGeneration_def runGeneration_begin_def loop_body_def shell_pushes_def
      push_def tryPop_def pop_def Queue_new_def sendOutputToUI_def world1_def System_init_def
      COMMAND_QUEUE_SIZE_def MAX_TOKENS_def Let_def terminal_count_def
      other_texts_not_terminal)

text \<open>
  C3, amended. When \<open>runGeneration\<close> returns, it has sent exactly one end message:
  one of the three terminal markers (EOS, Aborted, Max tokens reached) when the engine
  is still Generating, to return to Idle; and \<open>[Aborted: shutdown requested]\<close>, last and
  with none of the three markers, when the engine has entered ShuttingDown.
\<close>

theorem runGeneration_end_message:
  assumes "runGeneration sched task w = Some w'" and "status (state w) = GENERATING"
  shows "\<exists>new. ui_output w' = ui_output w @ new \<and>
           length (filter is_end_message new) = 1 \<and>
           (if status (state w') = SHUTTING_DOWN
            then terminal_count new = 0 \<and> last new = msg_shutdown
            else status (state w') = GENERATING \<and> terminal_count new = 1)"
proof -
  define w0 where "w0 = runGeneration_begin task w"
  have b: "status (state w0) = GENERATING" "\<not> cancelCurrent (state w0)"
    "\<not> resetRequested (state w0)" "ui_output w0 = ui_output w @ [msg_generating]"
    using assms(2) by (simp_all add: w0_def runGeneration_begin_def sendOutputToUI_def Let_def)
  from assms(1) have g: "gen_loop sched 0 w0 = Some w'"
    by (simp add: runGeneration_def w0_def)
  from gen_loop_end[OF g b(1) b(2) b(3)] obtain mid tail where
    m: "ui_output w' = ui_output w0 @ mid @ tail" "\<forall>t \<in> set mid. \<not> is_end_message t"
      "(status (state w') = SHUTTING_DOWN \<and> tail = [msg_shutdown]) \<or>
       (status (state w') = GENERATING \<and> \<not> resetRequested (state w') \<and>
          (tail = [msg_aborted] \<or> tail = [msg_aborted, msg_cleared] \<or>
           tail = [msg_eos] \<or> tail = [msg_max_tokens]))"
    by blast
  define new where "new = [msg_generating] @ mid @ tail"
  have o: "ui_output w' = ui_output w @ new" by (simp add: new_def m(1) b(4))
  have fe: "filter is_end_message mid = []" by (rule filter_none[OF m(2)])
  have ft: "filter is_terminal_marker mid = []"
    using m(2) terminal_is_end by (intro filter_none) blast
  have e: "is_end_message msg_shutdown" "is_end_message msg_aborted" "is_end_message msg_eos"
    "is_end_message msg_max_tokens"
    by (simp_all add: is_end_message_def terminal_markers_sent)
  from m(3) show ?thesis
  proof
    assume s: "status (state w') = SHUTTING_DOWN \<and> tail = [msg_shutdown]"
    then have "length (filter is_end_message new) = 1" "terminal_count new = 0"
      "last new = msg_shutdown"
      by (simp_all add: new_def fe ft e other_texts_not_end other_texts_not_terminal
          terminal_count_def)
    with o s show ?thesis by auto
  next
    assume s: "status (state w') = GENERATING \<and> \<not> resetRequested (state w') \<and>
          (tail = [msg_aborted] \<or> tail = [msg_aborted, msg_cleared] \<or>
           tail = [msg_eos] \<or> tail = [msg_max_tokens])"
    then have "length (filter is_end_message new) = 1" "terminal_count new = 1"
      by (auto simp: new_def fe ft e other_texts_not_end other_texts_not_terminal
          terminal_markers_sent terminal_count_def)
    with o s show ?thesis by auto
  qed
qed

theorem runGeneration_end_message_witness:
  "\<exists>w'. runGeneration [[\<lparr>type_cmd = STOP_CURRENT\<rparr>]] task1 world1 = Some w' \<and>
      status (state world1) = GENERATING \<and>
      ui_output w' = [msg_generating, msg_aborted] \<and>
      (\<exists>new. ui_output w' = ui_output world1 @ new \<and>
         length (filter is_end_message new) = 1 \<and>
         status (state w') = GENERATING \<and> terminal_count new = 1)"
proof -
  have h: "status (state world1) = GENERATING"
    by (simp add: world1_def)
  have "\<exists>w'. runGeneration [[\<lparr>type_cmd = STOP_CURRENT\<rparr>]] task1 world1 = Some w' \<and>
          ui_output w' = [msg_generating, msg_aborted] \<and> status (state w') = GENERATING"
    by (simp add: runGeneration_def runGeneration_begin_def loop_body_def shell_pushes_def
      push_def tryPop_def pop_def Queue_new_def sendOutputToUI_def world1_def System_init_def
      COMMAND_QUEUE_SIZE_def MAX_TOKENS_def Let_def EngineState_new_def)
  then obtain w' where r: "runGeneration [[\<lparr>type_cmd = STOP_CURRENT\<rparr>]] task1 world1 = Some w'"
      "ui_output w' = [msg_generating, msg_aborted]" "status (state w') = GENERATING"
    by blast
  from runGeneration_end_message[OF r(1) h] r h show ?thesis by auto
qed

section \<open>Properties of the engine thread\<close>

lemma sys_inv_init: "sys_inv System_init"
  by (simp add: sys_inv_def System_init_def EngineState_new_def ring_ok_new contents_new
      TASK_QUEUE_SIZE_def)

lemma pushTask_inv:
  assumes "ring_ok TASK_QUEUE_SIZE (taskQueue w)"
    and "list_all (\<lambda>t. 1 \<le> id_task t) (contents TASK_QUEUE_SIZE (taskQueue w))"
    and "1 \<le> id_task task"
  shows "ring_ok TASK_QUEUE_SIZE (taskQueue (snd (pushTask w task)))"
    and "list_all (\<lambda>t. 1 \<le> id_task t)
           (contents TASK_QUEUE_SIZE (taskQueue (snd (pushTask w task))))"
    and "state (snd (pushTask w task)) = state w"
proof -
  show "state (snd (pushTask w task)) = state w" by (simp add: pushTask_def)
  show "ring_ok TASK_QUEUE_SIZE (taskQueue (snd (pushTask w task)))"
  proof (cases "full TASK_QUEUE_SIZE (taskQueue w)")
    case True
    then show ?thesis using assms(1) by (simp add: pushTask_def)
  next
    case False
    then have "count (taskQueue w) < TASK_QUEUE_SIZE" by (simp add: full_def)
    from push_ok(2)[OF assms(1) this, of task] False show ?thesis by (simp add: pushTask_def)
  qed
  show "list_all (\<lambda>t. 1 \<le> id_task t)
           (contents TASK_QUEUE_SIZE (taskQueue (snd (pushTask w task))))"
  proof (cases "full TASK_QUEUE_SIZE (taskQueue w)")
    case True
    then show ?thesis using assms(2) by (simp add: pushTask_def)
  next
    case False
    then have "count (taskQueue w) < TASK_QUEUE_SIZE" by (simp add: full_def)
    from push_ok(3)[OF assms(1) this, of task] False assms(2,3) show ?thesis
      by (simp add: pushTask_def)
  qed
qed

lemma sys_inv_shell_line: "sys_inv s \<Longrightarrow> sys_inv (shell_line l s)"
proof -
  assume i: "sys_inv s"
  then have q: "ring_ok TASK_QUEUE_SIZE (taskQueue (world s))"
    "list_all (\<lambda>t. 1 \<le> id_task t) (contents TASK_QUEUE_SIZE (taskQueue (world s)))"
    "1 \<le> nextTaskId s"
    by (simp_all add: sys_inv_def)
  define task where "task = \<lparr>id_task = nextTaskId s, type_task = GENERATE, prompt = l\<rparr>"
  have t: "1 \<le> id_task task" using q(3) by (simp add: task_def)
  note p = pushTask_inv[OF q(1) q(2) t]
  show ?thesis
    using i p q(3)
    by (auto simp: shell_line_def sys_inv_def shell_pushes_frame Let_def task_def[symmetric]
        split: Pc.splits)
qed


lemma handleTopLevelCommand_frame:
  "taskQueue (handleTopLevelCommand cmd w) = taskQueue w"
  "currentTaskId (state (handleTopLevelCommand cmd w)) = currentTaskId (state w)"
  "resetRequested (state (handleTopLevelCommand cmd w)) = resetRequested (state w)"
  "status (state (handleTopLevelCommand cmd w)) =
     (if type_cmd cmd = SHUTDOWN then SHUTTING_DOWN else status (state w))"
  by (simp_all add: handleTopLevelCommand_def sendOutputToUI_def clearKvCache_def
      split: CommandType.splits)

lemma runGeneration_begin_frame:
  "taskQueue (runGeneration_begin task w) = taskQueue w"
  "state (runGeneration_begin task w)
     = (state w)\<lparr>cancelCurrent := False, resetRequested := False\<rparr>"
  by (simp_all add: runGeneration_begin_def sendOutputToUI_def Let_def)

lemma sys_inv_engine_step: "sys_inv s \<Longrightarrow> sys_inv (engine_step s)"
proof -
  assume i: "sys_inv s"
  then have q: "ring_ok TASK_QUEUE_SIZE (taskQueue (world s))"
    "list_all (\<lambda>t. 1 \<le> id_task t) (contents TASK_QUEUE_SIZE (taskQueue (world s)))"
    "1 \<le> nextTaskId s"
    by (simp_all add: sys_inv_def)
  show ?thesis
  proof (cases "pc s")
    case Exited
    then show ?thesis using i by (simp add: engine_step_def Let_def)
  next
    case TopLevel
    with i have t: "status (state (world s)) \<noteq> GENERATING"
      "status (state (world s)) = IDLE \<Longrightarrow>
         currentTaskId (state (world s)) = - 1 \<and> \<not> resetRequested (state (world s))"
      by (simp_all add: sys_inv_def)
    show ?thesis
    proof (cases "status (state (world s))")
      case GENERATING
      with t show ?thesis by simp
    next
      case SHUTTING_DOWN
      then show ?thesis
        using q TopLevel by (simp add: engine_step_def Let_def sys_inv_def clearKvCache_def)
    next
      case IDLE
      show ?thesis
      proof (cases "tryPop COMMAND_QUEUE_SIZE (commandQueue (world s))")
        case (Some a)
        obtain cmd cq where a: "a = (cmd, cq)" by (cases a)
        show ?thesis
          using q TopLevel IDLE Some a t(2)
          by (simp add: engine_step_def Let_def sys_inv_def handleTopLevelCommand_frame)
      next
        case None
        note noc = None
        show ?thesis
        proof (cases "tryPop TASK_QUEUE_SIZE (taskQueue (world s))")
          case None
          then show ?thesis using i TopLevel IDLE noc by (simp add: engine_step_def Let_def)
        next
          case (Some b)
          obtain task tq where b: "b = (task, tq)" by (cases b)
          from Some b have pos: "0 < count (taskQueue (world s))"
            by (auto simp: tryPop_def pop_def split: if_splits)
          from pop_ok[OF q(1) pos] Some b
          have p: "ring_ok TASK_QUEUE_SIZE tq"
            "contents TASK_QUEUE_SIZE (taskQueue (world s)) = task # contents TASK_QUEUE_SIZE tq"
            by (auto simp: tryPop_def)
          from q(2) p(2) have id: "1 \<le> id_task task"
            "list_all (\<lambda>t. 1 \<le> id_task t) (contents TASK_QUEUE_SIZE tq)"
            by simp_all
          show ?thesis
            using q(3) TopLevel IDLE noc Some b p(1) id
            by (simp add: engine_step_def Let_def sys_inv_def runGeneration_begin_frame )
        qed
      qed
    qed
  next
    case (InGeneration task tc)
    with i have g: "status (state (world s)) = GENERATING"
      "currentTaskId (state (world s)) = id_task task" "1 \<le> id_task task"
      "\<not> cancelCurrent (state (world s))" "\<not> resetRequested (state (world s))"
      by (simp_all add: sys_inv_def)
    show ?thesis
    proof (cases "tc < MAX_TOKENS")
      case False
      then show ?thesis
        using q g InGeneration
        by (simp add: engine_step_def Let_def sys_inv_def after_generation_def sendOutputToUI_def
            )
    next
      case True
      obtain ret tc1 w1 where b: "loop_body (world s) tc = (ret, tc1, w1)"
        by (cases "loop_body (world s) tc") auto
      note c = loop_body_cases[OF b g(4) g(5)]
      show ?thesis
      proof (cases ret)
        case False
        with c have "state w1 = state (world s)" "taskQueue w1 = taskQueue (world s)"
          by simp_all
        then show ?thesis
          using q g InGeneration True b False
          by (simp add: engine_step_def Let_def sys_inv_def)
      next
        case True
        with c g(1) have
          "taskQueue w1 = taskQueue (world s)"
          "status (state w1) = SHUTTING_DOWN \<or>
           (status (state w1) = GENERATING \<and> \<not> resetRequested (state w1))"
          by auto
        then show ?thesis
          using q InGeneration \<open>tc < MAX_TOKENS\<close> b True
          by (auto simp: engine_step_def Let_def sys_inv_def after_generation_def )
      qed
    qed
  qed
qed

lemma sys_inv_fold: "sys_inv s \<Longrightarrow> sys_inv (fold sys_step evs s)"
proof (induction evs arbitrary: s)
  case Nil
  then show ?case by simp
next
  case (Cons e evs)
  have "sys_inv (sys_step e s)"
    using Cons.prems by (cases e) (simp_all add: sys_inv_shell_line sys_inv_engine_step)
  then show ?case using Cons.IH by simp
qed

lemma sys_inv_run: "sys_inv (run evs)"
  unfolding run_def by (rule sys_inv_fold[OF sys_inv_init])

lemma shutting_down_stays:
  "status (state (world s)) = SHUTTING_DOWN \<Longrightarrow>
   status (state (world (sys_step e s))) = SHUTTING_DOWN"
proof (cases e)
  case (ShellLine l)
  assume "status (state (world s)) = SHUTTING_DOWN"
  then show ?thesis
    using ShellLine
    by (simp add: shell_line_def shell_pushes_frame pushTask_def Let_def)
next
  case EngineStep
  assume sd: "status (state (world s)) = SHUTTING_DOWN"
  show ?thesis
  proof (cases "pc s")
    case TopLevel
    then show ?thesis using sd EngineStep by (simp add: engine_step_def Let_def clearKvCache_def)
  next
    case Exited
    then show ?thesis using sd EngineStep by (simp add: engine_step_def Let_def)
  next
    case (InGeneration task tc)
    have l: "status (state w1) = SHUTTING_DOWN" if "loop_body (world s) tc = (ret, tc1, w1)"
      for ret tc1 w1
      using that sd
      by (auto simp: loop_body_def sendOutputToUI_def clearKvCache_def Let_def
          split: option.splits prod.splits CommandType.splits if_splits)
    obtain ret tc1 w1 where b: "loop_body (world s) tc = (ret, tc1, w1)"
      by (cases "loop_body (world s) tc") auto
    show ?thesis
      using sd EngineStep InGeneration b l[OF b]
      by (cases ret) (simp_all add: engine_step_def Let_def after_generation_def sendOutputToUI_def
          )
  qed
qed


lemmas run_eval =
  run_def shell_line_def engine_step_def pushTask_def full_def push_def tryPop_def pop_def
  Queue_new_def System_init_def runGeneration_begin_def loop_body_def shell_pushes_def
  after_generation_def handleTopLevelCommand_def sendOutputToUI_def clearKvCache_def
  EngineState_new_def TASK_QUEUE_SIZE_def COMMAND_QUEUE_SIZE_def MAX_TOKENS_def Let_def

text \<open>
  C4 as stated fails for \<open>cancel_flag\<close>: after a generation is stopped by \<open>/stop\<close> the
  engine is Idle with \<open>cancelCurrent\<close> still set (it is cleared at the start of the next
  generation, not on the return to Idle).
\<close>

theorem idle_with_cancel_set:
  "status (state (world (run [ShellLine ''hi'', EngineStep, ShellLine ''/stop'', EngineStep])))
     = IDLE \<and>
   cancelCurrent
     (state (world (run [ShellLine ''hi'', EngineStep, ShellLine ''/stop'', EngineStep])))
     = True"
  by (simp add: run_eval)

text \<open>
  C4, amended. At every control point the engine thread reaches, under any
  interleaving with the shell: when the status is Generating a task is current
  (\<open>currentTaskId \<noteq> -1\<close>); when it is Idle no task is current and no reset is pending;
  and no step of either thread leaves ShuttingDown.
\<close>

theorem engine_invariants:
  "(status (state (world (run evs))) = GENERATING \<longrightarrow>
      currentTaskId (state (world (run evs))) \<noteq> - 1) \<and>
   (status (state (world (run evs))) = IDLE \<longrightarrow>
      currentTaskId (state (world (run evs))) = - 1 \<and>
      \<not> resetRequested (state (world (run evs)))) \<and>
   (status (state (world s)) = SHUTTING_DOWN \<longrightarrow>
      status (state (world (sys_step e s))) = SHUTTING_DOWN)"
proof -
  have i: "sys_inv (run evs)" by (rule sys_inv_run)
  have 1: "currentTaskId (state (world (run evs))) \<noteq> - 1"
    if "status (state (world (run evs))) = GENERATING"
    using i that by (cases "pc (run evs)") (auto simp: sys_inv_def)
  have 2: "currentTaskId (state (world (run evs))) = - 1 \<and>
      \<not> resetRequested (state (world (run evs)))"
    if "status (state (world (run evs))) = IDLE"
    using i that by (cases "pc (run evs)") (auto simp: sys_inv_def)
  show ?thesis using 1 2 shutting_down_stays[of s e] by blast
qed

theorem engine_invariants_witness:
  "status (state (world (run [ShellLine ''hi'', EngineStep]))) = GENERATING \<and>
   currentTaskId (state (world (run [ShellLine ''hi'', EngineStep]))) \<noteq> - 1 \<and>
   status (state (world (run [ShellLine ''hi'', EngineStep, ShellLine ''/reset'', EngineStep])))
     = IDLE \<and>
   currentTaskId
     (state (world (run [ShellLine ''hi'', EngineStep, ShellLine ''/reset'', EngineStep])))
     = - 1 \<and>
   \<not> resetRequested
     (state (world (run [ShellLine ''hi'', EngineStep, ShellLine ''/reset'', EngineStep]))) \<and>
   status (state (world (run [ShellLine ''/quit'', EngineStep]))) = SHUTTING_DOWN \<and>
   status (state (world (sys_step EngineStep (run [ShellLine ''/quit'', EngineStep]))))
     = SHUTTING_DOWN"
proof -
  have a: "status (state (world (run [ShellLine ''hi'', EngineStep]))) = GENERATING"
    by (simp add: run_eval)
  have b: "status (state (world (run [ShellLine ''hi'', EngineStep, ShellLine ''/reset'',
             EngineStep]))) = IDLE"
    by (simp add: run_eval)
  have c: "status (state (world (run [ShellLine ''/quit'', EngineStep]))) = SHUTTING_DOWN"
    by (simp add: run_eval)
  show ?thesis
    using a b c
      engine_invariants[of "[ShellLine ''hi'', EngineStep]"
        "run [ShellLine ''/quit'', EngineStep]" EngineStep]
      engine_invariants[of "[ShellLine ''hi'', EngineStep, ShellLine ''/reset'', EngineStep]"
        "run [ShellLine ''/quit'', EngineStep]" EngineStep]
    by simp
qed

subsection \<open>When the generation routine returns\<close>

text \<open>A command waiting in the queue at the start of a pass ends the generation in
  that pass, whatever the command.\<close>

lemma loop_body_returns_on_command:
  "0 < count (commandQueue w) \<Longrightarrow> fst (loop_body w tc)"
  by (auto simp: loop_body_def tryPop_def pop_def sendOutputToUI_def clearKvCache_def Let_def
      split: CommandType.splits)

lemma gen_loop_returns_on_command:
  assumes "0 < count (commandQueue (shell_pushes arrivals w))"
  shows "\<exists>w'. gen_loop (arrivals # sched) tc w = Some w'"
proof (cases "tc < MAX_TOKENS")
  case False
  then show ?thesis by simp
next
  case True
  obtain ret tc1 w1 where b: "loop_body (shell_pushes arrivals w) tc = (ret, tc1, w1)"
    by (cases "loop_body (shell_pushes arrivals w) tc") auto
  with loop_body_returns_on_command[OF assms, of tc] have "ret" by simp
  with b True show ?thesis by simp
qed

text \<open>With the status words as the constructor leaves them the driver never yields a
  token, so \<open>token_count\<close> stays below \<open>MAX_TOKENS\<close>: as long as no command arrives, the
  loop does not end.\<close>

lemma loop_body_waits:
  assumes "count (commandQueue w) = 0" and "status_words (accel w) = replicate 4 0"
    and "\<not> cancelCurrent (state w)"
  shows "\<exists>a. loop_body w tc = (False, tc, w\<lparr>accel := a\<rparr>) \<and> status_words a = replicate 4 0"
proof -
  obtain r a where g: "getNextToken (accel w) = (r, a)" by (cases "getNextToken (accel w)")
  have "r = None" using zero_status_never_yields[OF assms(2)] g by simp
  moreover have "status_words a = replicate 4 0"
    using getNextToken_status_words[of "accel w"] g assms(2) by simp
  ultimately have "loop_body w tc = (False, tc, w\<lparr>accel := a\<rparr>) \<and>
      status_words a = replicate 4 0"
    using assms(1,3) g by (simp add: loop_body_def tryPop_def pop_def)
  then show ?thesis by blast
qed

lemma gen_loop_waits:
  assumes "tc < MAX_TOKENS"
  shows "count (commandQueue w) = 0 \<Longrightarrow> status_words (accel w) = replicate 4 0 \<Longrightarrow>
         \<not> cancelCurrent (state w) \<Longrightarrow> gen_loop (replicate n []) tc w = None"
proof (induction n arbitrary: w)
  case 0
  then show ?case using assms by simp
next
  case (Suc n)
  have s: "shell_pushes [] w = w" by (simp add: shell_pushes_def)
  from loop_body_waits[OF Suc.prems, of tc] obtain a where
    b: "loop_body w tc = (False, tc, w\<lparr>accel := a\<rparr>)" "status_words a = replicate 4 0"
    by blast
  have "gen_loop (replicate n []) tc (w\<lparr>accel := a\<rparr>) = None"
    by (rule Suc.IH) (use Suc.prems b(2) in simp_all)
  then show ?case using assms b(1) by (simp add: s)
qed

lemma runGeneration_waits:
  assumes "count (commandQueue w) = 0" and "status_words (accel w) = replicate 4 0"
  shows "runGeneration (replicate n []) task w = None"
  unfolding runGeneration_def
  by (rule gen_loop_waits)
     (use assms in \<open>simp_all add: runGeneration_begin_def sendOutputToUI_def Let_def
        status_words_preserved MAX_TOKENS_def\<close>)

lemma first_generation_waits: "runGeneration (replicate n []) task1 world1 = None"
  by (rule runGeneration_waits)
     (simp_all add: world1_def System_init_def Queue_new_def status_words_preserved
        Accelerator_new_def)


text \<open>The same shutdown, as a run of the two threads from the start of the program.\<close>

lemma shutdown_run:
  "ui_output (world (run [ShellLine ''hi'', EngineStep, ShellLine ''/quit'', EngineStep]))
     = [msg_generating, msg_shutdown] \<and>
   status (state (world (run [ShellLine ''hi'', EngineStep, ShellLine ''/quit'', EngineStep])))
     = SHUTTING_DOWN"
  by (simp add: run_eval)

end
